theory Spec2Isabelle
  imports Main "HOL-Library.Word" "HOL-Library.AList" "HOL-Library.List_Lexorder"
begin

section \<open>JavaScript strings and values\<close>

text \<open>
  A JavaScript string is a sequence of UTF-16 code units. The source uses two characters
  outside ASCII (U+FFFD and U+2019), so strings are lists of 16-bit words; \<open>js\<close> embeds an
  ASCII literal.
\<close>

type_synonym jsstring = "16 word list"

definition js :: "string \<Rightarrow> jsstring" where
  "js s = map of_char s"

text \<open>
  The values a calendar property can carry, as far as the schema looks at them. Numbers
  are the integers the calendar parser produces for year, month and day; an object is its
  list of own properties.
\<close>

datatype jsval =
    JUndefined
  | JNull
  | JBool bool
  | JNum int
  | JStr jsstring
  | JObj "(jsstring \<times> jsval) list"

text \<open>A thrown \<open>Error\<close> with its message.\<close>

datatype js_error = Error jsstring

text \<open>Property read \<open>o[k]\<close>: a missing key reads as \<open>undefined\<close>.\<close>

definition obj_get :: "(jsstring \<times> jsval) list \<Rightarrow> jsstring \<Rightarrow> jsval" where
  "obj_get obj k = (case map_of obj k of None \<Rightarrow> JUndefined | Some v \<Rightarrow> v)"

text \<open>JavaScript truthiness, and the operators \<open>&&\<close> and \<open>??\<close> on values.\<close>

fun truthy :: "jsval \<Rightarrow> bool" where
  "truthy JUndefined = False"
| "truthy JNull = False"
| "truthy (JBool b) = b"
| "truthy (JNum n) = (n \<noteq> 0)"
| "truthy (JStr s) = (s \<noteq> [])"
| "truthy (JObj fs) = True"

definition js_and :: "jsval \<Rightarrow> jsval \<Rightarrow> jsval" where
  "js_and a b = (if truthy a then b else a)"

definition js_nullish :: "jsval \<Rightarrow> jsval \<Rightarrow> jsval" where
  "js_nullish a b = (if a = JUndefined \<or> a = JNull then b else a)"

section \<open>The uid pattern\<close>

text \<open>
  Character classes of the regular expression: \<open>\d\<close>, \<open>\w\<close>, and the line terminators
  that the wildcard \<open>.\<close> does not match (the expression has no \<open>s\<close> flag).
\<close>

definition isDigit :: "16 word \<Rightarrow> bool" where
  "isDigit c \<longleftrightarrow> 0x30 \<le> c \<and> c \<le> 0x39"

definition isWordChar :: "16 word \<Rightarrow> bool" where
  "isWordChar c \<longleftrightarrow>
     (0x30 \<le> c \<and> c \<le> 0x39) \<or> (0x41 \<le> c \<and> c \<le> 0x5A) \<or> (0x61 \<le> c \<and> c \<le> 0x7A) \<or> c = 0x5F"

definition isLineTerminator :: "16 word \<Rightarrow> bool" where
  "isLineTerminator c \<longleftrightarrow> c = 0x0A \<or> c = 0x0D \<or> c = 0x2028 \<or> c = 0x2029"

text \<open>
  The pieces of a pattern, each consuming a prefix of the input and returning the rest:
  \<open>c{n}\<close>, a literal, the wildcard, and a greedy \<open>c+\<close> that also returns what it consumed.
\<close>

definition re_count :: "nat \<Rightarrow> (16 word \<Rightarrow> bool) \<Rightarrow> jsstring \<Rightarrow> jsstring option" where
  "re_count n cls s =
     (if n \<le> length s \<and> list_all cls (take n s) then Some (drop n s) else None)"

definition re_lit :: "jsstring \<Rightarrow> jsstring \<Rightarrow> jsstring option" where
  "re_lit lit s =
     (if length lit \<le> length s \<and> take (length lit) s = lit then Some (drop (length lit) s)
      else None)"

definition re_dot :: "jsstring \<Rightarrow> jsstring option" where
  "re_dot s = (case s of [] \<Rightarrow> None | c # r \<Rightarrow> if isLineTerminator c then None else Some r)"

definition re_plus :: "(16 word \<Rightarrow> bool) \<Rightarrow> jsstring \<Rightarrow> (jsstring \<times> jsstring) option" where
  "re_plus cls s =
     (if takeWhile cls s = [] then None else Some (takeWhile cls s, dropWhile cls s))"

text \<open>
  \<^verbatim>\<open>const re = /^\d{10}-(\w+)-\d{6}@afosterri.org$/;\<close>

  \<open>uid_re\<close> runs the expression on a whole string and returns the capture group on a
  match. The group \<open>(\w+)\<close> is greedy; the hyphen that follows it is no word character, so
  the longest run of word characters is the only candidate and no backtracking arises.
  The dot before \<open>org\<close> is unescaped in the source and is the wildcard.
\<close>

definition uid_re :: "jsstring \<Rightarrow> jsstring option" where
  "uid_re s =
     Option.bind (re_count 10 isDigit s) (\<lambda>r1.
     Option.bind (re_lit (js ''-'') r1) (\<lambda>r2.
     Option.bind (re_plus isWordChar r2) (\<lambda>(tok, r3).
     Option.bind (re_lit (js ''-'') r3) (\<lambda>r4.
     Option.bind (re_count 6 isDigit r4) (\<lambda>r5.
     Option.bind (re_lit (js ''@afosterri'') r5) (\<lambda>r6.
     Option.bind (re_dot r6) (\<lambda>r7.
     Option.bind (re_lit (js ''org'') r7) (\<lambda>r8.
     if r8 = [] then Some tok else None))))))))"

text \<open>
  \<^verbatim>\<open>
  function extractCalciumId(id: string) {
    const re = /^\d{10}-(\w+)-\d{6}@afosterri.org$/;
    if (!id.match(re)) throw new Error('bad id');
    return id.replace(re, '$1');
  }
  \<close>
  The expression is anchored at both ends, so replacing the match by \<open>$1\<close> leaves the
  capture group alone.
\<close>

definition extractCalciumId :: "jsstring \<Rightarrow> js_error + jsstring" where
  "extractCalciumId ident =
     (case uid_re ident of
        None \<Rightarrow> Inl (Error (js ''bad id''))
      | Some tok \<Rightarrow> Inr tok)"

section \<open>Text repair\<close>

text \<open>
  \<^verbatim>\<open>str.replace(/[<U+FFFD>]/g, '<U+2019>')\<close>: a global replace of one code unit by
  another, scanning the string from left to right.
\<close>

fun replace_all :: "16 word \<Rightarrow> 16 word \<Rightarrow> jsstring \<Rightarrow> jsstring" where
  "replace_all a b [] = []"
| "replace_all a b (c # cs) = (if c = a then b else c) # replace_all a b cs"

text \<open>
  \<^verbatim>\<open>
  function fixApostrophe(str?: string) {
    if (!str?.length) return;
    return str.replace(/[<U+FFFD>]/g, '<U+2019>');
  }
  \<close>
  \<open>None\<close> is \<open>undefined\<close>, both as the argument and as the result of the bare \<open>return\<close>.
\<close>

definition fixApostrophe :: "jsstring option \<Rightarrow> jsstring option" where
  "fixApostrophe str =
     (case str of
        None \<Rightarrow> None
      | Some s \<Rightarrow> if length s = 0 then None else Some (replace_all 0xFFFD 0x2019 s))"

section \<open>The schema\<close>

text \<open>
  The outcome of parsing one value against a zod schema: the parsed value, an issue, or an
  exception thrown by a transform (zod does not catch what a transform throws).
\<close>

datatype reason = Invalid_type | Invalid_literal | Invalid_union

datatype 'a zresult = ZOk 'a | ZIssue reason | ZThrow js_error

definition z_string :: "jsval \<Rightarrow> jsstring zresult" where
  "z_string v = (case v of JStr s \<Rightarrow> ZOk s | _ \<Rightarrow> ZIssue Invalid_type)"

definition z_optional :: "(jsval \<Rightarrow> 'a zresult) \<Rightarrow> jsval \<Rightarrow> 'a option zresult" where
  "z_optional p v =
     (if v = JUndefined then ZOk None
      else case p v of ZOk a \<Rightarrow> ZOk (Some a) | ZIssue r \<Rightarrow> ZIssue r | ZThrow e \<Rightarrow> ZThrow e)"

definition z_transform ::
  "(jsval \<Rightarrow> 'a zresult) \<Rightarrow> ('a \<Rightarrow> js_error + 'b) \<Rightarrow> jsval \<Rightarrow> 'b zresult" where
  "z_transform p f v =
     (case p v of
        ZOk a \<Rightarrow> (case f a of Inl e \<Rightarrow> ZThrow e | Inr b \<Rightarrow> ZOk b)
      | ZIssue r \<Rightarrow> ZIssue r
      | ZThrow e \<Rightarrow> ZThrow e)"

text \<open>
  \<^verbatim>\<open>
  const cabinMap = {
    Foster: '45617389-7678-42bf-bfb4-83304a389dc7',
    House: '430a512f-6a35-4ed0-9e4b-4efa7a90a0e7',
    Ide: 'd0b162c0-8a64-4946-b148-a7362c296709',
    Kendrew: '2bb998a2-7c9a-4367-bcdb-b8e8a144b8a7',
    Meeting: null,
    Mosher: '649d65b6-9a50-491f-b0f2-8a0e22ee6275',
  };
  const cabins = Object.keys(cabinMap) as (keyof typeof cabinMap)[];
  const cabinShape = z.union([z.never(), z.never(), ...cabins.map((c) => z.literal(c))]);
  \<close>
\<close>

datatype cabin_key = Foster | House | Ide | Kendrew | Meeting | Mosher

fun key_name :: "cabin_key \<Rightarrow> jsstring" where
  "key_name Foster = js ''Foster''"
| "key_name House = js ''House''"
| "key_name Ide = js ''Ide''"
| "key_name Kendrew = js ''Kendrew''"
| "key_name Meeting = js ''Meeting''"
| "key_name Mosher = js ''Mosher''"

fun cabinMap :: "cabin_key \<Rightarrow> jsval" where
  "cabinMap Foster = JStr (js ''45617389-7678-42bf-bfb4-83304a389dc7'')"
| "cabinMap House = JStr (js ''430a512f-6a35-4ed0-9e4b-4efa7a90a0e7'')"
| "cabinMap Ide = JStr (js ''d0b162c0-8a64-4946-b148-a7362c296709'')"
| "cabinMap Kendrew = JStr (js ''2bb998a2-7c9a-4367-bcdb-b8e8a144b8a7'')"
| "cabinMap Meeting = JNull"
| "cabinMap Mosher = JStr (js ''649d65b6-9a50-491f-b0f2-8a0e22ee6275'')"

definition cabins :: "cabin_key list" where
  "cabins = [Foster, House, Ide, Kendrew, Meeting, Mosher]"

definition cabinShape :: "jsval \<Rightarrow> cabin_key zresult" where
  "cabinShape v =
     (case v of
        JStr s \<Rightarrow> (case find (\<lambda>c. key_name c = s) cabins of
                     Some c \<Rightarrow> ZOk c
                   | None \<Rightarrow> ZIssue Invalid_union)
      | _ \<Rightarrow> ZIssue Invalid_union)"

text \<open>
  \<^verbatim>\<open>
  const dateShape = z.object({
    isDate: z.literal(true),
    year: z.number(),
    month: z.number(),
    day: z.number(),
  });
  \<close>
  The parsed object keeps \<open>isDate\<close>, which is always \<open>true\<close>; the record holds the three
  numbers. A field reports one reason, the first that fails.
\<close>

record date_obj =
  year :: int
  month :: int
  day :: int

definition dateShape :: "jsval \<Rightarrow> date_obj zresult" where
  "dateShape v =
     (case v of
        JObj fs \<Rightarrow>
          (if obj_get fs (js ''isDate'') \<noteq> JBool True then ZIssue Invalid_literal
           else case (obj_get fs (js ''year''), obj_get fs (js ''month''), obj_get fs (js ''day'')) of
                  (JNum y, JNum m, JNum d) \<Rightarrow> ZOk \<lparr>year = y, month = m, day = d\<rparr>
                | _ \<Rightarrow> ZIssue Invalid_type)
      | _ \<Rightarrow> ZIssue Invalid_type)"

text \<open>
  \<^verbatim>\<open>
  rrule: z.object({ freq: z.literal('DAILY'), until: dateShape }).optional()
  \<close>
  The parsed object keeps \<open>freq\<close>, which is always \<open>'DAILY'\<close>.
\<close>

record rrule_obj =
  until :: date_obj

definition rruleShape :: "jsval \<Rightarrow> rrule_obj zresult" where
  "rruleShape v =
     (case v of
        JObj fs \<Rightarrow>
          (if obj_get fs (js ''freq'') \<noteq> JStr (js ''DAILY'') then ZIssue Invalid_literal
           else case dateShape (obj_get fs (js ''until'')) of
                  ZOk d \<Rightarrow> ZOk \<lparr>until = d\<rparr>
                | ZIssue r \<Rightarrow> ZIssue r
                | ZThrow e \<Rightarrow> ZThrow e)
      | _ \<Rightarrow> ZIssue Invalid_type)"

text \<open>
  \<^verbatim>\<open>
  const shape = z.object({
    uid: z.string().transform(extractCalciumId),
    summary: z.string().transform(fixApostrophe),
    dtstart: dateShape,
    dtend: dateShape.optional(),
    categories: cabinShape.optional(),
    description: z.string().optional().transform(fixApostrophe),
    rrule: z.object({ freq: z.literal('DAILY'), until: dateShape }).optional(),
  });
  \<close>
  One definition per key of the shape, and the record of the parsed output.
\<close>

record data =
  uid :: jsstring
  summary :: "jsstring option"
  dtstart :: date_obj
  dtend :: "date_obj option"
  categories :: "cabin_key option"
  description :: "jsstring option"
  rrule :: "rrule_obj option"

definition shape_uid :: "jsval \<Rightarrow> jsstring zresult" where
  "shape_uid = z_transform z_string extractCalciumId"

definition shape_summary :: "jsval \<Rightarrow> jsstring option zresult" where
  "shape_summary = z_transform z_string (\<lambda>s. Inr (fixApostrophe (Some s)))"

definition shape_dtstart :: "jsval \<Rightarrow> date_obj zresult" where
  "shape_dtstart = dateShape"

definition shape_dtend :: "jsval \<Rightarrow> date_obj option zresult" where
  "shape_dtend = z_optional dateShape"

definition shape_categories :: "jsval \<Rightarrow> cabin_key option zresult" where
  "shape_categories = z_optional cabinShape"

definition shape_description :: "jsval \<Rightarrow> jsstring option zresult" where
  "shape_description = z_transform (z_optional z_string) (\<lambda>s. Inr (fixApostrophe s))"

definition shape_rrule :: "jsval \<Rightarrow> rrule_obj option zresult" where
  "shape_rrule = z_optional rruleShape"

text \<open>
  A validation error lists the failing fields, each with what went wrong: an issue of the
  schema or an exception thrown by a transform.
\<close>

datatype failure = Issue reason | Thrown js_error

type_synonym validation_error = "(jsstring \<times> failure) list"

fun field_errors :: "jsstring \<Rightarrow> 'a zresult \<Rightarrow> validation_error" where
  "field_errors k (ZOk a) = []"
| "field_errors k (ZIssue r) = [(k, Issue r)]"
| "field_errors k (ZThrow e) = [(k, Thrown e)]"

text \<open>
  Modelled from the spec: the helper \<open>validate\<close> of the module \<open>./validate\<close>, which the
  pipeline imports and calls as \<open>validate(obj, shape)\<close>. Following the specification of
  the schema validator, it applies every field rule of the shape to the flat record and
  never throws: each failing field, whether by an issue or by an exception of its
  transform, contributes one entry naming the field to a single validation error, and a
  record with no failing field yields the parsed data.
\<close>

definition validate :: "(jsstring \<times> jsval) list \<Rightarrow> validation_error + data" where
  "validate obj =
     (let r_uid = shape_uid (obj_get obj (js ''uid''));
          r_summary = shape_summary (obj_get obj (js ''summary''));
          r_dtstart = shape_dtstart (obj_get obj (js ''dtstart''));
          r_dtend = shape_dtend (obj_get obj (js ''dtend''));
          r_categories = shape_categories (obj_get obj (js ''categories''));
          r_description = shape_description (obj_get obj (js ''description''));
          r_rrule = shape_rrule (obj_get obj (js ''rrule''));
          errs = field_errors (js ''uid'') r_uid @ field_errors (js ''summary'') r_summary
               @ field_errors (js ''dtstart'') r_dtstart @ field_errors (js ''dtend'') r_dtend
               @ field_errors (js ''categories'') r_categories
               @ field_errors (js ''description'') r_description
               @ field_errors (js ''rrule'') r_rrule
      in case r_uid of ZOk v_uid \<Rightarrow>
        (case r_summary of ZOk v_summary \<Rightarrow>
          (case r_dtstart of ZOk v_dtstart \<Rightarrow>
            (case r_dtend of ZOk v_dtend \<Rightarrow>
              (case r_categories of ZOk v_categories \<Rightarrow>
                (case r_description of ZOk v_description \<Rightarrow>
                  (case r_rrule of ZOk v_rrule \<Rightarrow>
                     Inr \<lparr>uid = v_uid, summary = v_summary, dtstart = v_dtstart,
                          dtend = v_dtend, categories = v_categories,
                          description = v_description, rrule = v_rrule\<rparr>
                   | _ \<Rightarrow> Inl errs)
                 | _ \<Rightarrow> Inl errs)
               | _ \<Rightarrow> Inl errs)
             | _ \<Rightarrow> Inl errs)
           | _ \<Rightarrow> Inl errs)
         | _ \<Rightarrow> Inl errs)
       | _ \<Rightarrow> Inl errs)"

section \<open>Record extraction\<close>

text \<open>
  A calendar component as the parser hands it over: \<open>getAllProperties()\<close> gives its
  properties in source order, and reading the values of a property either gives the list
  of its values or throws, which it does on a malformed encoding.
\<close>

datatype property = Property (name: jsstring) (getValues: "js_error + jsval list")

datatype component = Component (getAllProperties: "property list")

text \<open>\<open>getValues()[0]\<close>: the first value, \<open>undefined\<close> when there is none.\<close>

definition first_value :: "jsval list \<Rightarrow> jsval" where
  "first_value vs = (case vs of [] \<Rightarrow> JUndefined | v # _ \<Rightarrow> v)"

text \<open>
  \<^verbatim>\<open>
  let obj: any = {};
  try {
    for (const prop of c.getAllProperties()) {
      if (prop.name === 'exdate') continue;
      obj[prop.name] = prop.getValues()[0];
    }
  } catch (e) { ... }
  \<close>
  The loop over the properties, with the object built so far; \<open>Inl\<close> is the exception that
  leaves the \<open>try\<close> block. An assignment to a key that is present replaces its value in
  place, any other is added at the end.
\<close>

fun extract_record :: "property list \<Rightarrow> (jsstring \<times> jsval) list \<Rightarrow> js_error + (jsstring \<times> jsval) list" where
  "extract_record [] obj = Inr obj"
| "extract_record (prop # props) obj =
     (if name prop = js ''exdate'' then extract_record props obj
      else case getValues prop of
             Inl e \<Rightarrow> Inl e
           | Inr vs \<Rightarrow> extract_record props (AList.update (name prop) (first_value vs) obj))"

section \<open>Dates\<close>

text \<open>
  A \<open>Dayjs\<close> value wraps a point in time. Every value the pipeline builds from a calendar
  date is a local midnight, so the model keeps the number of the local day (day 0 is
  1970-01-01) in place of the millisecond count; comparing two values compares these.
  The calendar is the proleptic Gregorian one of the JavaScript \<open>Date\<close>. Year, month and
  day are integers; the calendar parser reads a year from four characters, so the limits
  of \<open>Date\<close>, some hundred million days either side of day 0, are out of reach and left out.
\<close>

datatype dayjs = Dayjs (valueOf: int)

text \<open>
  The calendar, as the language standard defines it for \<open>Date\<close>, on day numbers: the day
  on which a year starts, the length of a year, the year a day falls in, the day within
  that year, and from it the month (0 to 11) and the day of the month. The standard takes
  the year of a day to be the largest year that starts on or before the day; \<open>YearFromDay\<close>
  computes it from an estimate that is off by at most one.
\<close>

definition DayFromYear :: "int \<Rightarrow> int" where
  "DayFromYear y =
     365 * (y - 1970) + (y - 1969) div 4 - (y - 1901) div 100 + (y - 1601) div 400"

definition DaysInYear :: "int \<Rightarrow> int" where
  "DaysInYear y =
     (if y mod 4 \<noteq> 0 then 365
      else if y mod 100 \<noteq> 0 then 366
      else if y mod 400 \<noteq> 0 then 365
      else 366)"

definition InLeapYear :: "int \<Rightarrow> int" where
  "InLeapYear y = (if DaysInYear y = 366 then 1 else 0)"

definition YearFromDay :: "int \<Rightarrow> int" where
  "YearFromDay d =
     (let y = 1970 + (400 * d) div 146097
      in if DayFromYear (y + 1) \<le> d then y + 1
         else if DayFromYear y \<le> d then y
         else y - 1)"

definition DayWithinYear :: "int \<Rightarrow> int" where
  "DayWithinYear d = d - DayFromYear (YearFromDay d)"

text \<open>The day within the year on which month \<open>m\<close> starts, \<open>leap\<close> being 1 in a leap year.\<close>

definition month_start :: "int \<Rightarrow> int \<Rightarrow> int" where
  "month_start leap m =
     (if m = 0 then 0 else if m = 1 then 31 else if m = 2 then 59 + leap
      else if m = 3 then 90 + leap else if m = 4 then 120 + leap
      else if m = 5 then 151 + leap else if m = 6 then 181 + leap
      else if m = 7 then 212 + leap else if m = 8 then 243 + leap
      else if m = 9 then 273 + leap else if m = 10 then 304 + leap
      else 334 + leap)"

definition MonthFromDay :: "int \<Rightarrow> int" where
  "MonthFromDay d =
     (let w = DayWithinYear d; leap = InLeapYear (YearFromDay d)
      in if w < 31 then 0 else if w < 59 + leap then 1 else if w < 90 + leap then 2
         else if w < 120 + leap then 3 else if w < 151 + leap then 4
         else if w < 181 + leap then 5 else if w < 212 + leap then 6
         else if w < 243 + leap then 7 else if w < 273 + leap then 8
         else if w < 304 + leap then 9 else if w < 334 + leap then 10
         else 11)"

definition DateFromDay :: "int \<Rightarrow> int" where
  "DateFromDay d =
     DayWithinYear d - month_start (InLeapYear (YearFromDay d)) (MonthFromDay d) + 1"

definition DaysInMonth :: "int \<Rightarrow> int \<Rightarrow> int" where
  "DaysInMonth y m =
     (if m = 11 then 31 else month_start (InLeapYear y) (m + 1) - month_start (InLeapYear y) m)"

text \<open>
  \<open>new Date(year, monthIndex, day)\<close>: a month index outside 0 to 11 carries into the
  year, and the day of month counts on from the first of that month.
\<close>

definition MakeDay :: "int \<Rightarrow> int \<Rightarrow> int \<Rightarrow> int" where
  "MakeDay y m dt =
     (let ym = y + m div 12; mn = m mod 12
      in DayFromYear ym + month_start (InLeapYear ym) mn + dt - 1)"

text \<open>
  The constructor \<open>new Date(year, monthIndex, day)\<close> reads a year from 0 to 99 as a year of
  the twentieth century.
\<close>

definition js_Date :: "int \<Rightarrow> int \<Rightarrow> int \<Rightarrow> int" where
  "js_Date y m dt = MakeDay (if 0 \<le> y \<and> y \<le> 99 then 1900 + y else y) m dt"

text \<open>
  The clock as the library reads it with \<open>dayjs()\<close>: the current year, month (0 to 11) and
  day of the month. The library reads it anew in every call; a run is short, and the
  model gives it one reading.
\<close>

record clock =
  now_year :: int
  now_month :: int
  now_date :: int

text \<open>
  \<open>dayjs_object\<close> is the constructor of the object-support plugin for an object with the
  keys \<open>year\<close>, \<open>month\<close> and \<open>day\<close>. It takes a field that is falsy, here zero, or a month
  index that is negative as missing, fills it from the clock or with the first month or
  day, and passes the three numbers to \<open>new Date\<close>:
  \<^verbatim>\<open>
  const d = $d.day || ((!$d.year && !($d.month >= 0)) ? now.date() : 1)
  const y = $d.year || now.year()
  const M = $d.month >= 0 ? $d.month : ((!$d.year && !$d.day) ? now.month() : 0)
  return new Date(y, M, d, h, m, s, ms)
  \<close>
\<close>

definition dayjs_object :: "clock \<Rightarrow> int \<Rightarrow> int \<Rightarrow> int \<Rightarrow> dayjs" where
  "dayjs_object now yr mi dy =
     (let d = (if dy \<noteq> 0 then dy else if yr = 0 \<and> \<not> 0 \<le> mi then now_date now else 1);
          y = (if yr \<noteq> 0 then yr else now_year now);
          M = (if 0 \<le> mi then mi else if yr = 0 \<and> dy = 0 then now_month now else 0)
      in Dayjs (js_Date y M d))"

text \<open>
  \<^verbatim>\<open>
  function parseDate(obj: z.infer<typeof dateShape>) {
    return dayjs({ year: obj.year, month: obj.month - 1, day: obj.day });
  }
  \<close>
\<close>

definition parseDate :: "clock \<Rightarrow> date_obj \<Rightarrow> dayjs" where
  "parseDate now obj = dayjs_object now (year obj) (month obj - 1) (day obj)"

text \<open>\<open>String(n)\<close> for an integer, and the left padding that the formatter applies.\<close>

fun digits :: "nat \<Rightarrow> jsstring" where
  "digits n = (if n < 10 then [of_nat (48 + n)] else digits (n div 10) @ [of_nat (48 + n mod 10)])"

declare digits.simps [simp del]

definition String_of :: "int \<Rightarrow> jsstring" where
  "String_of n = (if n < 0 then js ''-'' @ digits (nat (- n)) else digits (nat n))"

definition padStart :: "jsstring \<Rightarrow> nat \<Rightarrow> 16 word \<Rightarrow> jsstring" where
  "padStart s n pad = (if n \<le> length s then s else replicate (n - length s) pad @ s)"

text \<open>
  \<^verbatim>\<open>
  function formatDate(obj: Dayjs) {
    return obj.format('YYYY-MM-DD');
  }
  function parseFormatDate(obj: z.infer<typeof dateShape>) {
    return formatDate(parseDate(obj));
  }
  \<close>
\<close>

definition formatDate :: "dayjs \<Rightarrow> jsstring" where
  "formatDate obj =
     (let d = valueOf obj
      in padStart (String_of (YearFromDay d)) 4 0x30 @ js ''-''
           @ padStart (String_of (MonthFromDay d + 1)) 2 0x30 @ js ''-''
           @ padStart (String_of (DateFromDay d)) 2 0x30)"

text \<open>
  The decimal digits of a number in a field of \<open>w\<close> places, and the dates of the calendar
  with a year from 100 to 9999, both for stating what the formatter yields.
\<close>

fun fixed_width :: "nat \<Rightarrow> nat \<Rightarrow> jsstring" where
  "fixed_width 0 n = []"
| "fixed_width (Suc w) n = fixed_width w (n div 10) @ [of_nat (48 + n mod 10)]"

definition calendar_date :: "date_obj \<Rightarrow> bool" where
  "calendar_date obj \<longleftrightarrow>
     100 \<le> year obj \<and> year obj \<le> 9999 \<and> 1 \<le> month obj \<and> month obj \<le> 12 \<and>
     1 \<le> day obj \<and> day obj \<le> DaysInMonth (year obj) (month obj - 1)"

definition parseFormatDate :: "clock \<Rightarrow> date_obj \<Rightarrow> jsstring" where
  "parseFormatDate now obj = formatDate (parseDate now obj)"

text \<open>
  \<open>a.isBefore(b)\<close> on two values, and \<open>a.isAfter(s)\<close> against a string, which the library
  first turns into a value. That constructor from a string belongs to the library and
  reads many formats, so it is a parameter \<open>P\<close> of the model: \<open>P s = None\<close> when the string
  gives an invalid date, against which every comparison is false.
\<close>

definition isBefore :: "dayjs \<Rightarrow> dayjs \<Rightarrow> bool" where
  "isBefore a b \<longleftrightarrow> valueOf a < valueOf b"

definition isAfter :: "(jsstring \<Rightarrow> dayjs option) \<Rightarrow> dayjs \<Rightarrow> jsstring \<Rightarrow> bool" where
  "isAfter P a s = (case P s of None \<Rightarrow> False | Some b \<Rightarrow> valueOf b < valueOf a)"

text \<open>
  One such constructor, for the examples: it reads a date written \<open>YYYY-MM-DD\<close> as the
  library does and takes every other string as invalid.
\<close>

definition number_of :: "jsstring \<Rightarrow> int" where
  "number_of s = foldl (\<lambda>a c. 10 * a + (uint c - 48)) 0 s"

definition dayjs_iso :: "jsstring \<Rightarrow> dayjs option" where
  "dayjs_iso s =
     (if length s = 10 \<and> list_all isDigit (take 4 s) \<and> s ! 4 = 0x2D
         \<and> list_all isDigit (take 2 (drop 5 s)) \<and> s ! 7 = 0x2D
         \<and> list_all isDigit (drop 8 s)
      then Some (Dayjs (js_Date (number_of (take 4 s)) (number_of (take 2 (drop 5 s)) - 1)
                          (number_of (drop 8 s))))
      else None)"

section \<open>The pipeline\<close>

text \<open>
  The records the pipeline emits. \<open>descr\<close> is the key \<open>description\<close>; \<open>start_date\<close> and
  \<open>end_date\<close> are the keys \<open>start\<close> and \<open>end\<close> of \<open>dates\<close>. A diagnostic is
  \<open>{number, object, error}\<close>.
\<close>

record date_range =
  start_date :: jsstring
  end_date :: jsstring

record event =
  importId :: jsstring
  title :: "jsstring option"
  descr :: "jsstring option"
  cabin :: jsval
  dates :: date_range

datatype ('o, 'e) diagnostic = Diagnostic (number: nat) (object: 'o) (error: 'e)

record buckets =
  broken :: "(property list, js_error) diagnostic list"
  unparsed :: "((jsstring \<times> jsval) list, validation_error) diagnostic list"

text \<open>
  \<^verbatim>\<open>
  let dates: [dayjs.Dayjs, dayjs.Dayjs] = [
    parseDate(data.dtstart),
    parseDate(data.rrule?.until ?? data.dtstart),
  ];
  // swap if dates are in incorrect order
  if (dates[1].isBefore(dates[0])) dates = [dates[1], dates[0]];
  \<close>
\<close>

definition initial_dates :: "clock \<Rightarrow> data \<Rightarrow> dayjs \<times> dayjs" where
  "initial_dates now d =
     (parseDate now (dtstart d),
      parseDate now (case rrule d of Some r \<Rightarrow> until r | None \<Rightarrow> dtstart d))"

definition resolved_dates :: "clock \<Rightarrow> data \<Rightarrow> dayjs \<times> dayjs" where
  "resolved_dates now d =
     (let ds = initial_dates now d
      in if isBefore (snd ds) (fst ds) then (snd ds, fst ds) else ds)"

text \<open>
  \<^verbatim>\<open>
  if (dateCutoff?.length && dates[1].isAfter(dateCutoff)) return;
  \<close>
\<close>

definition cut_off :: "(jsstring \<Rightarrow> dayjs option) \<Rightarrow> jsstring option \<Rightarrow> dayjs \<times> dayjs \<Rightarrow> bool" where
  "cut_off P dateCutoff ds =
     (case dateCutoff of
        None \<Rightarrow> False
      | Some s \<Rightarrow> length s \<noteq> 0 \<and> isAfter P (snd ds) s)"

text \<open>
  \<^verbatim>\<open>
  const event = {
    importId: data.uid,
    title: data.summary,
    description: data.description,
    cabin: (data.categories && cabinMap[data.categories]) ?? null,
    dates: { start: formatDate(dates[0]), end: formatDate(dates[1]) },
  };
  \<close>
  \<open>data.categories\<close> is a key of the table or \<open>undefined\<close>.
\<close>

definition categories_value :: "cabin_key option \<Rightarrow> jsval" where
  "categories_value c = (case c of None \<Rightarrow> JUndefined | Some k \<Rightarrow> JStr (key_name k))"

definition cabinMap_at :: "cabin_key option \<Rightarrow> jsval" where
  "cabinMap_at c = (case c of None \<Rightarrow> JUndefined | Some k \<Rightarrow> cabinMap k)"

definition cabin_of :: "cabin_key option \<Rightarrow> jsval" where
  "cabin_of c = js_nullish (js_and (categories_value c) (cabinMap_at c)) JNull"

definition make_event :: "data \<Rightarrow> dayjs \<times> dayjs \<Rightarrow> event" where
  "make_event d ds =
     \<lparr>importId = uid d,
      title = summary d,
      descr = description d,
      cabin = cabin_of (categories d),
      dates = \<lparr>start_date = formatDate (fst ds), end_date = formatDate (snd ds)\<rparr>\<rparr>"

text \<open>
  The function given to \<open>events.map\<close>, with the two buckets it pushes to passed through.
  Its result is the event or \<open>undefined\<close>, here \<open>None\<close>. The imported \<open>validate\<close>,
  already applied to \<open>shape\<close>, is the parameter \<open>V\<close>; the test \<open>error || !data\<close> is the
  left injection. \<open>now\<close> is what the clock reads during the run.
  \<^verbatim>\<open>
  (c, i) => {
    let obj: any = {};
    try { ... } catch (e) {
      broken.push({ number: i, object: Object.assign({}, c.getAllProperties()), error: e });
      return;
    }
    const { data, error } = validate(obj, shape);
    if (error || !data) {
      unparsed.push({ number: i, object: Object.assign({}, obj), error: error });
      return;
    }
    ...
    if (dateCutoff?.length && dates[1].isAfter(dateCutoff)) return;
    const event = { ... };
    return event;
  }
  \<close>
\<close>

type_synonym validator = "(jsstring \<times> jsval) list \<Rightarrow> validation_error + data"

definition callback ::
  "validator \<Rightarrow> (jsstring \<Rightarrow> dayjs option) \<Rightarrow> clock \<Rightarrow> jsstring option \<Rightarrow> component \<Rightarrow> nat
     \<Rightarrow> buckets \<Rightarrow> event option \<times> buckets" where
  "callback V P now dateCutoff c i st =
     (case extract_record (getAllProperties c) [] of
        Inl e \<Rightarrow>
          (None, st\<lparr>broken := broken st @ [Diagnostic i (getAllProperties c) e]\<rparr>)
      | Inr obj \<Rightarrow>
          (case V obj of
             Inl err \<Rightarrow> (None, st\<lparr>unparsed := unparsed st @ [Diagnostic i obj err]\<rparr>)
           | Inr d \<Rightarrow>
               (let ds = resolved_dates now d
                in if cut_off P dateCutoff ds then (None, st)
                   else (Some (make_event d ds), st))))"

text \<open>\<open>Array.prototype.map\<close> with the index, threading the buckets from left to right.\<close>

fun map_events ::
  "(component \<Rightarrow> nat \<Rightarrow> buckets \<Rightarrow> event option \<times> buckets) \<Rightarrow> component list \<Rightarrow> nat \<Rightarrow> buckets
     \<Rightarrow> event option list \<times> buckets" where
  "map_events f [] i st = ([], st)"
| "map_events f (c # cs) i st =
     (case f c i st of
        (r, st') \<Rightarrow> (case map_events f cs (Suc i) st' of (rs, st'') \<Rightarrow> (r # rs, st'')))"

text \<open>\<open>.filter((it) => !!it)\<close>: an event is an object and so truthy; \<open>undefined\<close> goes.\<close>

fun filter_defined :: "event option list \<Rightarrow> event list" where
  "filter_defined [] = []"
| "filter_defined (None # rs) = filter_defined rs"
| "filter_defined (Some e # rs) = e # filter_defined rs"

text \<open>
  \<open>ImportICS\<close> from the list \<open>events\<close> of components on: the steps before it fetch, read
  and parse the feed. The function returns \<open>parsed\<close>; the result record also holds the
  local buckets and the list \<open>rr\<close>, whose lengths the function logs.
  \<^verbatim>\<open>
  let broken: any[] = [];
  let unparsed = [];
  const parsed = events.map((c, i) => { ... }).filter((it) => !!it);
  const rr = parsed.filter((c) => !c.dates.end);
  return parsed;
  \<close>
\<close>

record import_result =
  parsed :: "event list"
  final :: buckets
  rr :: "event list"

definition ImportICS ::
  "validator \<Rightarrow> (jsstring \<Rightarrow> dayjs option) \<Rightarrow> clock \<Rightarrow> component list \<Rightarrow> jsstring option
     \<Rightarrow> import_result" where
  "ImportICS V P now events dateCutoff =
     (case map_events (callback V P now dateCutoff) events 0 \<lparr>broken = [], unparsed = []\<rparr> of
        (mapped, st) \<Rightarrow>
          (let parsed = filter_defined mapped;
               rr = filter (\<lambda>c. length (end_date (dates c)) = 0) parsed
           in \<lparr>parsed = parsed, final = st, rr = rr\<rparr>))"

section \<open>Sample feeds\<close>

text \<open>
  Values and components for the concrete runs below. A date value is what the calendar
  parser gives for a \<open>DATE\<close> property, a recurrence value what it gives for \<open>RRULE\<close>, each
  with the keys the schema reads.
\<close>

definition date_value :: "int \<Rightarrow> int \<Rightarrow> int \<Rightarrow> jsval" where
  "date_value y m d =
     JObj [(js ''isDate'', JBool True), (js ''year'', JNum y), (js ''month'', JNum m),
           (js ''day'', JNum d)]"

definition recur_value :: "jsstring \<Rightarrow> jsval \<Rightarrow> jsval" where
  "recur_value f u = JObj [(js ''freq'', JStr f), (js ''until'', u)]"

text \<open>
  The component of the scenario: uid, summary and start date, no recurrence and no
  category; the flat record extracted from it, the data the shape parses from that, and
  the event, with the cabin and the two dates left open.
\<close>

definition team_meeting :: component where
  "team_meeting = Component
     [Property (js ''uid'') (Inr [JStr (js ''1234567890-abc123-999999@afosterri.org'')]),
      Property (js ''summary'') (Inr [JStr (js ''Team Meeting'')]),
      Property (js ''dtstart'') (Inr [date_value 2024 1 15])]"

definition team_meeting_record :: "(jsstring \<times> jsval) list" where
  "team_meeting_record =
     [(js ''uid'', JStr (js ''1234567890-abc123-999999@afosterri.org'')),
      (js ''summary'', JStr (js ''Team Meeting'')),
      (js ''dtstart'', date_value 2024 1 15)]"

definition team_meeting_data :: data where
  "team_meeting_data =
     \<lparr>uid = js ''abc123'', summary = Some (js ''Team Meeting''),
      dtstart = \<lparr>year = 2024, month = 1, day = 15\<rparr>, dtend = None, categories = None,
      description = None, rrule = None\<rparr>"

definition team_meeting_event :: "jsval \<Rightarrow> jsstring \<Rightarrow> jsstring \<Rightarrow> event" where
  "team_meeting_event loc s e =
     \<lparr>importId = js ''abc123'', title = Some (js ''Team Meeting''), descr = None, cabin = loc,
      dates = \<lparr>start_date = s, end_date = e\<rparr>\<rparr>"

text \<open>
  The same meeting recurring daily until a day before its start; an earlier meeting; a
  component with a property whose values cannot be read; and one whose uid has another
  domain, with its flat record.
\<close>

definition team_meeting_daily :: component where
  "team_meeting_daily = Component
     (getAllProperties team_meeting @
      [Property (js ''rrule'') (Inr [recur_value (js ''DAILY'') (date_value 2024 1 10)])])"

definition early_meeting :: component where
  "early_meeting = Component
     [Property (js ''uid'') (Inr [JStr (js ''1234567890-early1-999999@afosterri.org'')]),
      Property (js ''summary'') (Inr [JStr (js ''Team Meeting'')]),
      Property (js ''dtstart'') (Inr [date_value 2024 1 5])]"

definition malformed :: component where
  "malformed = Component
     [Property (js ''uid'') (Inr [JStr (js ''1234567890-abc123-999999@afosterri.org'')]),
      Property (js ''exdate'') (Inl (Error (js ''invalid date-time value''))),
      Property (js ''dtstart'') (Inl (Error (js ''invalid date value''))),
      Property (js ''summary'') (Inr [JStr (js ''Team Meeting'')])]"

definition wrong_domain :: component where
  "wrong_domain = Component
     [Property (js ''uid'') (Inr [JStr (js ''1234567890-abc123-999999@example.org'')]),
      Property (js ''summary'') (Inr [JStr (js ''Team Meeting'')]),
      Property (js ''dtstart'') (Inr [date_value 2024 1 15])]"

definition wrong_domain_record :: "(jsstring \<times> jsval) list" where
  "wrong_domain_record =
     [(js ''uid'', JStr (js ''1234567890-abc123-999999@example.org'')),
      (js ''summary'', JStr (js ''Team Meeting'')),
      (js ''dtstart'', date_value 2024 1 15)]"

text \<open>
  A component whose uid has an \<open>X\<close> where the fixed domain has its dot, with its flat
  record; a meeting whose start date has the year 0; and two readings of the clock, a
  year apart.
\<close>

definition wildcard_domain :: component where
  "wildcard_domain = Component
     [Property (js ''uid'') (Inr [JStr (js ''1234567890-abc123-999999@afosterriXorg'')]),
      Property (js ''summary'') (Inr [JStr (js ''Team Meeting'')]),
      Property (js ''dtstart'') (Inr [date_value 2024 1 15])]"

definition wildcard_domain_record :: "(jsstring \<times> jsval) list" where
  "wildcard_domain_record =
     [(js ''uid'', JStr (js ''1234567890-abc123-999999@afosterriXorg'')),
      (js ''summary'', JStr (js ''Team Meeting'')),
      (js ''dtstart'', date_value 2024 1 15)]"


definition sample_clock :: clock where
  "sample_clock = \<lparr>now_year = 2026, now_month = 10, now_date = 3\<rparr>"


section \<open>The calendar: properties\<close>

text \<open>Quotients by a constant, bounded and stepped.\<close>

lemma div_bounds:
  fixes x k :: int
  assumes "0 < k"
  shows "k * (x div k) \<le> x \<and> x < k * (x div k) + k"
proof -
  have "k * (x div k) + x mod k = x" by simp
  moreover have "0 \<le> x mod k" "x mod k < k" using assms by simp_all
  ultimately show ?thesis by linarith
qed

lemma div_step:
  fixes x k :: int
  assumes "1 < k"
  shows "(x + 1) div k = x div k + (if (x + 1) mod k = 0 then 1 else 0)"
proof (cases "x mod k + 1 = k")
  case True
  have e: "k * (x div k) + x mod k = x" by simp
  from e True have "x + 1 = k * (x div k) + k" by linarith
  then have "x + 1 = (x div k + 1) * k" by (simp add: algebra_simps)
  then have "(x + 1) div k = x div k + 1 \<and> (x + 1) mod k = 0"
    using assms by simp
  then show ?thesis by simp
next
  case False
  have r: "0 \<le> x mod k" "x mod k < k" using assms by simp_all
  with False have r1: "0 \<le> x mod k + 1" "x mod k + 1 < k" by linarith+
  have "x + 1 = k * (x div k) + (x mod k + 1)"
    using mult_div_mod_eq [of k x] by simp
  then have "(x + 1) div k = x div k \<and> (x + 1) mod k = x mod k + 1"
    using r1 by (metis int_div_pos_eq int_mod_pos_eq)
  then show ?thesis using r by simp
qed

lemma step4: "(y - 1968) div 4 = (y - 1969) div 4 + (if y mod 4 = 0 then 1 else 0)" for y :: int
proof -
  have "(y - 1969 + 1) mod 4 = y mod 4" by presburger
  then show ?thesis using div_step [of 4 "y - 1969"] by (simp add: algebra_simps)
qed


lemma step100: "(y - 1900) div 100 = (y - 1901) div 100 + (if y mod 100 = 0 then 1 else 0)" for y :: int
proof -
  have "(y - 1901 + 1) mod 100 = y mod 100"
    using mod_mult_self1 [of y "-19" 100] by simp
  then show ?thesis using div_step [of 100 "y - 1901"] by (simp add: algebra_simps)
qed

lemma step400: "(y - 1600) div 400 = (y - 1601) div 400 + (if y mod 400 = 0 then 1 else 0)" for y :: int
proof -
  have "(y - 1601 + 1) mod 400 = y mod 400"
    using mod_mult_self1 [of y "-4" 400] by simp
  then show ?thesis using div_step [of 400 "y - 1601"] by (simp add: algebra_simps)
qed

lemma mod_100_4: "y mod 100 = 0 \<Longrightarrow> y mod 4 = 0" for y :: int
  using mod_mod_cancel [of 4 100 y] by simp

lemma mod_400_100: "y mod 400 = 0 \<Longrightarrow> y mod 100 = 0" for y :: int
  using mod_mod_cancel [of 100 400 y] by simp

lemma DayFromYear_step: "DayFromYear (y + 1) = DayFromYear y + DaysInYear y"
proof -
  have "DayFromYear (y + 1) =
      365 * (y - 1969) + (y - 1968) div 4 - (y - 1900) div 100 + (y - 1600) div 400"
    by (simp add: DayFromYear_def)
  then show ?thesis
    using mod_100_4 [of y] mod_400_100 [of y]
    by (simp add: DayFromYear_def DaysInYear_def step4 step100 step400)
qed

text \<open>
  Years start later and later; the estimate of \<open>YearFromDay\<close> is off by at most one, so
  that the year of a day is the one year that starts on or before the day and whose
  successor starts after it.
\<close>

lemma lin_less:
  fixes y1 y2 a1 a2 b1 b2 c1 c2 :: int
  assumes "y1 < y2"
    and "4 * a1 \<le> y1 - 1969" "y2 - 1969 < 4 * a2 + 4"
    and "y1 - 1901 < 100 * b1 + 100" "100 * b2 \<le> y2 - 1901"
    and "400 * c1 \<le> y1 - 1601" "y2 - 1601 < 400 * c2 + 400"
  shows "365 * y1 + a1 - b1 + c1 < 365 * y2 + a2 - b2 + c2"
  using assms by linarith

lemma DayFromYear_less:
  assumes "y1 < y2"
  shows "DayFromYear y1 < DayFromYear y2"
proof -
  have "365 * y1 + (y1 - 1969) div 4 - (y1 - 1901) div 100 + (y1 - 1601) div 400
      < 365 * y2 + (y2 - 1969) div 4 - (y2 - 1901) div 100 + (y2 - 1601) div 400"
    using assms div_bounds [of 4 "y1 - 1969"] div_bounds [of 4 "y2 - 1969"]
      div_bounds [of 100 "y1 - 1901"] div_bounds [of 100 "y2 - 1901"]
      div_bounds [of 400 "y1 - 1601"] div_bounds [of 400 "y2 - 1601"]
    by (intro lin_less) simp_all
  then show ?thesis by (simp add: DayFromYear_def algebra_simps)
qed

lemma DayFromYear_le: "y1 \<le> y2 \<Longrightarrow> DayFromYear y1 \<le> DayFromYear y2"
  using DayFromYear_less [of y1 y2] by (cases "y1 = y2") simp_all

lemma lin_low:
  fixes d e a b c :: int
  assumes "146097 * e \<le> 400 * d"
    and "4 * a \<le> e" "e + 68 < 100 * b + 100" "400 * c \<le> e + 368"
  shows "365 * e - 365 + a - b + c \<le> d"
  using assms by linarith

lemma lin_high:
  fixes d e a b c :: int
  assumes "400 * d < 146097 * e + 146097"
    and "e + 3 < 4 * a + 4" "100 * b \<le> e + 71" "e + 371 < 400 * c + 400"
  shows "d < 365 * e + 730 + a - b + c"
  using assms by linarith

lemma estimate_low: "DayFromYear (1970 + (400 * d) div 146097 - 1) \<le> d"
proof -
  define e where "e = (400 * d) div 146097"
  have "365 * e - 365 + e div 4 - (e + 68) div 100 + (e + 368) div 400 \<le> d"
    using div_bounds [of 146097 "400 * d"] div_bounds [of 4 e] div_bounds [of 100 "e + 68"]
      div_bounds [of 400 "e + 368"]
    by (intro lin_low) (simp_all add: e_def)
  then show ?thesis by (simp add: DayFromYear_def e_def algebra_simps)
qed

lemma estimate_high: "d < DayFromYear (1970 + (400 * d) div 146097 + 2)"
proof -
  define e where "e = (400 * d) div 146097"
  have "d < 365 * e + 730 + (e + 3) div 4 - (e + 71) div 100 + (e + 371) div 400"
    using div_bounds [of 146097 "400 * d"] div_bounds [of 4 "e + 3"] div_bounds [of 100 "e + 71"]
      div_bounds [of 400 "e + 371"]
    by (intro lin_high) (simp_all add: e_def)
  then show ?thesis by (simp add: DayFromYear_def e_def algebra_simps)
qed

lemma YearFromDay_bounds:
  "DayFromYear (YearFromDay d) \<le> d \<and> d < DayFromYear (YearFromDay d + 1)"
  using estimate_low [of d] estimate_high [of d]
  by (simp add: YearFromDay_def Let_def)

lemma YearFromDay_unique:
  assumes "DayFromYear y \<le> d" and "d < DayFromYear (y + 1)"
  shows "YearFromDay d = y"
proof (rule ccontr)
  assume ne: "YearFromDay d \<noteq> y"
  show False
  proof (cases "YearFromDay d < y")
    case True
    then have "DayFromYear (YearFromDay d + 1) \<le> DayFromYear y"
      by (intro DayFromYear_le) simp
    with YearFromDay_bounds [of d] assms show False by linarith
  next
    case False
    with ne have "DayFromYear (y + 1) \<le> DayFromYear (YearFromDay d)"
      by (intro DayFromYear_le) simp
    with YearFromDay_bounds [of d] assms show False by linarith
  qed
qed

lemma YearFromDay_mono:
  assumes "d1 \<le> d2"
  shows "YearFromDay d1 \<le> YearFromDay d2"
proof (rule ccontr)
  assume "\<not> YearFromDay d1 \<le> YearFromDay d2"
  then have "DayFromYear (YearFromDay d2 + 1) \<le> DayFromYear (YearFromDay d1)"
    by (intro DayFromYear_le) simp
  with YearFromDay_bounds [of d1] YearFromDay_bounds [of d2] assms show False by linarith
qed

lemma DayWithinYear_range:
  "0 \<le> DayWithinYear d \<and> DayWithinYear d < DaysInYear (YearFromDay d)"
  using YearFromDay_bounds [of d] DayFromYear_step [of "YearFromDay d"]
  by (simp add: DayWithinYear_def)

lemma DaysInYear_leap: "DaysInYear y = 365 + InLeapYear y"
  by (simp add: InLeapYear_def DaysInYear_def)

lemma InLeapYear_range: "InLeapYear y = 0 \<or> InLeapYear y = 1"
  by (simp add: InLeapYear_def)

lemma MonthFromDay_range: "0 \<le> MonthFromDay d \<and> MonthFromDay d \<le> 11"
  by (simp add: MonthFromDay_def Let_def)

lemma DateFromDay_range: "1 \<le> DateFromDay d \<and> DateFromDay d \<le> 31"
  using DayWithinYear_range [of d] InLeapYear_range [of "YearFromDay d"]
  by (auto simp: DateFromDay_def MonthFromDay_def month_start_def Let_def DaysInYear_leap)

text \<open>
  Year, month and day of the month grow with the day number, in lexicographic order; and
  \<open>MakeDay\<close> of a date of the calendar is a day with that year, month and day.
\<close>

lemma MonthFromDay_mono_within:
  assumes "YearFromDay d1 = YearFromDay d2" and "d1 \<le> d2"
  shows "MonthFromDay d1 < MonthFromDay d2 \<or>
     (MonthFromDay d1 = MonthFromDay d2 \<and> DateFromDay d1 \<le> DateFromDay d2)"
proof -
  have w: "DayWithinYear d1 \<le> DayWithinYear d2"
    using assms by (simp add: DayWithinYear_def)
  show ?thesis
  proof (cases "MonthFromDay d1 = MonthFromDay d2")
    case True
    with w assms(1) show ?thesis by (simp add: DateFromDay_def)
  next
    case False
    have "MonthFromDay d1 \<le> MonthFromDay d2"
      using w assms(1) by (simp add: MonthFromDay_def Let_def)
    with False show ?thesis by simp
  qed
qed

lemma civil_mono:
  assumes "d1 \<le> d2"
  shows "YearFromDay d1 < YearFromDay d2 \<or>
     (YearFromDay d1 = YearFromDay d2 \<and>
      (MonthFromDay d1 < MonthFromDay d2 \<or>
       (MonthFromDay d1 = MonthFromDay d2 \<and> DateFromDay d1 \<le> DateFromDay d2)))"
  using YearFromDay_mono [OF assms] MonthFromDay_mono_within [OF _ assms]
  by (cases "YearFromDay d1 = YearFromDay d2") auto

lemma MakeDay_inverse:
  assumes "0 \<le> m" "m \<le> 11" "1 \<le> dt"
    and "dt \<le> DaysInMonth y m"
  shows "YearFromDay (MakeDay y m dt) = y \<and> MonthFromDay (MakeDay y m dt) = m \<and>
     DateFromDay (MakeDay y m dt) = dt"
proof -
  let ?L = "InLeapYear y"
  have md: "MakeDay y m dt = DayFromYear y + month_start ?L m + dt - 1"
    using assms(1,2) by (simp add: MakeDay_def Let_def)
  have ms: "m = 0 \<or> m = 1 \<or> m = 2 \<or> m = 3 \<or> m = 4 \<or> m = 5 \<or> m = 6 \<or> m = 7 \<or> m = 8 \<or> m = 9
      \<or> m = 10 \<or> m = 11"
    using assms(1,2) by arith
  have rng: "0 \<le> month_start ?L m + dt - 1 \<and> month_start ?L m + dt - 1 < 365 + ?L"
    using ms InLeapYear_range [of y] assms(3,4)
    by (elim disjE; simp add: month_start_def DaysInMonth_def)
  have y: "YearFromDay (MakeDay y m dt) = y"
    using rng by (intro YearFromDay_unique) (simp_all add: md DayFromYear_step DaysInYear_leap)
  have w: "DayWithinYear (MakeDay y m dt) = month_start ?L m + dt - 1"
    by (simp add: DayWithinYear_def y) (simp add: md)
  have mo: "MonthFromDay (MakeDay y m dt) = m"
    unfolding MonthFromDay_def Let_def y w
    using ms InLeapYear_range [of y] assms(3,4)
    by (elim disjE; simp add: month_start_def DaysInMonth_def)
  have "DateFromDay (MakeDay y m dt) = dt"
    by (simp add: DateFromDay_def y w mo)
  with y mo show ?thesis by simp
qed

section \<open>Formatted dates: properties\<close>

lemma length_fixed_width: "length (fixed_width w n) = w"
  by (induction w arbitrary: n) simp_all

lemma fixed_width_zero: "fixed_width w 0 = replicate w 0x30"
  by (induction w) (simp_all add: replicate_append_same)

lemma length_digits: "n < 10 ^ w \<Longrightarrow> 0 < w \<Longrightarrow> length (digits n) \<le> w"
proof (induction w arbitrary: n)
  case 0
  then show ?case by simp
next
  case (Suc w)
  show ?case
  proof (cases "n < 10")
    case True
    then show ?thesis by (simp add: digits.simps [of n])
  next
    case False
    then have w: "0 < w" using Suc.prems by (cases w) simp_all
    have "n div 10 < 10 ^ w" using Suc.prems by simp
    from Suc.IH [OF this w] False show ?thesis by (simp add: digits.simps [of n])
  qed
qed

lemma padStart_digits:
  "n < 10 ^ w \<Longrightarrow> 0 < w \<Longrightarrow> padStart (digits n) w 0x30 = fixed_width w n"
proof (induction w arbitrary: n)
  case 0
  then show ?case by simp
next
  case (Suc w)
  show ?case
  proof (cases "n < 10")
    case True
    then have "n div 10 = 0" "n mod 10 = n" by simp_all
    with True show ?thesis
      by (simp add: digits.simps [of n] padStart_def fixed_width_zero)
  next
    case False
    then have w: "0 < w" using Suc.prems by (cases w) simp_all
    have lt: "n div 10 < 10 ^ w" using Suc.prems by simp
    have len: "length (digits (n div 10)) \<le> w" by (rule length_digits [OF lt w])
    have "padStart (digits n) (Suc w) 0x30 =
        padStart (digits (n div 10)) w 0x30 @ [of_nat (48 + n mod 10)]"
      using False len by (simp add: digits.simps [of n] padStart_def Suc_diff_le)
    with Suc.IH [OF lt w] show ?thesis by simp
  qed
qed

lemma digit_less:
  assumes "a < b" and "b < 10"
  shows "(of_nat (48 + a) :: 16 word) < of_nat (48 + b)"
proof -
  have "take_bit LENGTH(16) (48 + a) = 48 + a" "take_bit LENGTH(16) (48 + b) = 48 + b"
    using assms by (simp_all add: take_bit_nat_eq_self)
  with assms show ?thesis
    unfolding of_nat_word_less_iff by (simp only: nat_add_left_cancel_less)
qed

lemma fixed_width_less:
  "n < m \<Longrightarrow> m < 10 ^ w \<Longrightarrow> fixed_width w n < fixed_width w m"
proof (induction w arbitrary: n m)
  case 0
  then show ?case by simp
next
  case (Suc w)
  have le: "n div 10 \<le> m div 10" using Suc.prems(1) by (simp add: div_le_mono)
  show ?case
  proof (cases "n div 10 = m div 10")
    case True
    have "n mod 10 < m mod 10"
      using Suc.prems(1) True by (metis mod_less_divisor mult_div_mod_eq nat_add_left_cancel_less zero_less_numeral)
    then have "(of_nat (48 + n mod 10) :: 16 word) < of_nat (48 + m mod 10)"
      by (intro digit_less) simp_all
    then show ?thesis
      using True by (simp add: list_less_def lexord_same_pref_iff)
  next
    case False
    with le have "n div 10 < m div 10" by simp
    moreover have "m div 10 < 10 ^ w" using Suc.prems(2) by simp
    ultimately have "fixed_width w (n div 10) < fixed_width w (m div 10)" by (rule Suc.IH)
    then show ?thesis
      by (simp add: list_less_def lexord_sufI length_fixed_width)
  qed
qed

lemma fixed_width_le:
  "n \<le> m \<Longrightarrow> m < 10 ^ w \<Longrightarrow> fixed_width w n \<le> fixed_width w m"
  using fixed_width_less [of n m w] by (cases "n = m") (simp_all add: list_le_def)

lemma padStart_String_of:
  assumes "0 \<le> n" and "n < 10 ^ w" and "0 < w"
  shows "padStart (String_of n) w 0x30 = fixed_width w (nat n)"
proof -
  have "nat n < 10 ^ w" using assms(1,2) by (simp add: nat_less_iff)
  from padStart_digits [OF this assms(3)] assms(1) show ?thesis
    by (simp add: String_of_def)
qed

lemma formatDate_fixed_width:
  assumes "0 \<le> YearFromDay (valueOf obj)" and "YearFromDay (valueOf obj) \<le> 9999"
  shows "formatDate obj =
     fixed_width 4 (nat (YearFromDay (valueOf obj))) @ 0x2D #
     fixed_width 2 (nat (MonthFromDay (valueOf obj) + 1)) @ 0x2D #
     fixed_width 2 (nat (DateFromDay (valueOf obj)))"
proof -
  let ?d = "valueOf obj"
  have y: "padStart (String_of (YearFromDay ?d)) 4 0x30 = fixed_width 4 (nat (YearFromDay ?d))"
    using assms by (intro padStart_String_of) simp_all
  have m: "padStart (String_of (MonthFromDay ?d + 1)) 2 0x30 =
      fixed_width 2 (nat (MonthFromDay ?d + 1))"
    using MonthFromDay_range [of ?d] by (intro padStart_String_of) simp_all
  have d: "padStart (String_of (DateFromDay ?d)) 2 0x30 = fixed_width 2 (nat (DateFromDay ?d))"
    using DateFromDay_range [of ?d] by (intro padStart_String_of) simp_all
  show ?thesis
    by (simp only: formatDate_def Let_def y m d) (simp add: js_def)
qed

lemma less_append_same_length:
  fixes u w :: "'a::linorder list"
  assumes "u < w" and "length u = length w"
  shows "u @ v < w @ z"
  using assms by (simp add: list_less_def lexord_sufI)

lemma less_same_prefix:
  fixes u v :: "'a::linorder list"
  shows "x @ u < x @ v \<longleftrightarrow> u < v"
  by (simp add: list_less_def lexord_same_pref_iff)

lemma le_same_prefix:
  fixes u v :: "'a::linorder list"
  shows "x @ u \<le> x @ v \<longleftrightarrow> u \<le> v"
  by (simp add: list_le_def less_same_prefix)

lemma formatDate_mono:
  assumes le: "valueOf a \<le> valueOf b"
    and lo: "0 \<le> YearFromDay (valueOf a)" and hi: "YearFromDay (valueOf b) \<le> 9999"
  shows "formatDate a \<le> formatDate b"
proof -
  let ?Ya = "YearFromDay (valueOf a)" and ?Yb = "YearFromDay (valueOf b)"
  let ?Ma = "MonthFromDay (valueOf a)" and ?Mb = "MonthFromDay (valueOf b)"
  let ?Da = "DateFromDay (valueOf a)" and ?Db = "DateFromDay (valueOf b)"
  have yy: "?Ya \<le> ?Yb" by (rule YearFromDay_mono [OF le])
  have fa: "formatDate a =
      fixed_width 4 (nat ?Ya) @ 0x2D # fixed_width 2 (nat (?Ma + 1)) @ 0x2D # fixed_width 2 (nat ?Da)"
    using lo hi yy by (intro formatDate_fixed_width) simp_all
  have fb: "formatDate b =
      fixed_width 4 (nat ?Yb) @ 0x2D # fixed_width 2 (nat (?Mb + 1)) @ 0x2D # fixed_width 2 (nat ?Db)"
    using lo hi yy by (intro formatDate_fixed_width) simp_all
  from civil_mono [OF le] consider
      (year) "?Ya < ?Yb"
    | (month) "?Ya = ?Yb" "?Ma < ?Mb"
    | (date) "?Ya = ?Yb" "?Ma = ?Mb" "?Da \<le> ?Db"
    by blast
  then show ?thesis
  proof cases
    case year
    then have "fixed_width 4 (nat ?Ya) < fixed_width 4 (nat ?Yb)"
      using lo hi by (intro fixed_width_less) simp_all
    then have "formatDate a < formatDate b"
      unfolding fa fb by (intro less_append_same_length) (simp_all add: length_fixed_width)
    then show ?thesis by simp
  next
    case month
    have "fixed_width 2 (nat (?Ma + 1)) < fixed_width 2 (nat (?Mb + 1))"
      using month(2) MonthFromDay_range [of "valueOf a"] MonthFromDay_range [of "valueOf b"]
      by (intro fixed_width_less) simp_all
    then have "fixed_width 2 (nat (?Ma + 1)) @ 0x2D # fixed_width 2 (nat ?Da)
        < fixed_width 2 (nat (?Mb + 1)) @ 0x2D # fixed_width 2 (nat ?Db)"
      by (intro less_append_same_length) (simp_all add: length_fixed_width)
    then have "formatDate a < formatDate b"
      unfolding fa fb month(1) by (simp add: less_same_prefix)
    then show ?thesis by simp
  next
    case date
    have "fixed_width 2 (nat ?Da) \<le> fixed_width 2 (nat ?Db)"
      using date(3) DateFromDay_range [of "valueOf a"] DateFromDay_range [of "valueOf b"]
      by (intro fixed_width_le) simp_all
    then show ?thesis
      unfolding fa fb date(1,2) by (simp add: le_same_prefix)
  qed
qed

lemma dayjs_object_face_value:
  assumes "100 \<le> yr" and "0 \<le> mi" and "1 \<le> dy"
  shows "dayjs_object now yr mi dy = Dayjs (MakeDay yr mi dy)"
  using assms by (simp add: dayjs_object_def js_Date_def Let_def)

lemma parseDate_calendar_date:
  assumes "calendar_date obj"
  shows "YearFromDay (valueOf (parseDate now obj)) = year obj \<and>
     MonthFromDay (valueOf (parseDate now obj)) + 1 = month obj \<and>
     DateFromDay (valueOf (parseDate now obj)) = day obj"
proof -
  have "0 \<le> month obj - 1" "month obj - 1 \<le> 11" "1 \<le> day obj"
    "day obj \<le> DaysInMonth (year obj) (month obj - 1)"
    using assms by (simp_all add: calendar_date_def)
  from MakeDay_inverse [OF this] assms show ?thesis
    by (simp add: parseDate_def dayjs_object_face_value calendar_date_def)
qed

lemma parseFormatDate_calendar_date:
  assumes "calendar_date obj"
  shows "parseFormatDate now obj =
     fixed_width 4 (nat (year obj)) @ js ''-'' @ fixed_width 2 (nat (month obj)) @ js ''-''
       @ fixed_width 2 (nat (day obj))"
proof -
  have r: "0 \<le> year obj" "year obj \<le> 9999" using assms by (simp_all add: calendar_date_def)
  note p = parseDate_calendar_date [OF assms]
  have "formatDate (parseDate now obj) =
     fixed_width 4 (nat (YearFromDay (valueOf (parseDate now obj)))) @ 0x2D #
     fixed_width 2 (nat (MonthFromDay (valueOf (parseDate now obj)) + 1)) @ 0x2D #
     fixed_width 2 (nat (DateFromDay (valueOf (parseDate now obj))))"
    using r p by (intro formatDate_fixed_width) simp_all
  then show ?thesis using p by (simp add: parseFormatDate_def js_def)
qed

section \<open>Text repair: properties\<close>

lemma replace_all_map: "replace_all a b s = map (\<lambda>c. if c = a then b else c) s"
  by (induction s) simp_all

text \<open>
  The guard of \<open>fixApostrophe\<close> returns \<open>undefined\<close> for the empty string, which is
  therefore not returned unchanged.
\<close>

theorem fixApostrophe_empty_counterexample: "fixApostrophe (Some []) \<noteq> Some []"
  by (simp add: fixApostrophe_def)

text \<open>
  Claim C6, as amended. The repair returns \<open>undefined\<close> on an absent and on an empty input;
  on a non-empty string it puts U+2019 at every position that holds U+FFFD and leaves
  every other position as it is, so no U+FFFD remains.
\<close>

theorem fixApostrophe_repairs:
  "fixApostrophe None = None \<and> fixApostrophe (Some []) = None \<and>
   (s \<noteq> [] \<longrightarrow>
      fixApostrophe (Some s) = Some (map (\<lambda>c. if c = 0xFFFD then 0x2019 else c) s) \<and>
      0xFFFD \<notin> set (the (fixApostrophe (Some s))))"
  by (auto simp: fixApostrophe_def replace_all_map)

theorem fixApostrophe_repairs_witness:
  "[0x49, 0xFFFD, 0x6D] \<noteq> ([] :: jsstring) \<and>
   fixApostrophe (Some [0x49, 0xFFFD, 0x6D]) = Some [0x49, 0x2019, 0x6D]"
  using fixApostrophe_repairs [of "[0x49, 0xFFFD, 0x6D]"] by simp

section \<open>The uid pattern: properties\<close>

text \<open>
  What each piece of the pattern accepts, and from these the strings that the whole
  expression matches: ten digits, a hyphen, a non-empty token of word characters, a
  hyphen, six digits, \<open>@afosterri\<close>, any one character that is no line terminator, and
  \<open>org\<close>. The token is what the match returns.
\<close>

lemma re_count_Some_iff:
  "re_count n cls s = Some r \<longleftrightarrow> (\<exists>p. s = p @ r \<and> length p = n \<and> list_all cls p)"
proof
  assume "re_count n cls s = Some r"
  then have "n \<le> length s" "list_all cls (take n s)" "r = drop n s"
    by (auto simp: re_count_def split: if_splits)
  then have "s = take n s @ r \<and> length (take n s) = n \<and> list_all cls (take n s)"
    by simp
  then show "\<exists>p. s = p @ r \<and> length p = n \<and> list_all cls p" by blast
next
  assume "\<exists>p. s = p @ r \<and> length p = n \<and> list_all cls p"
  then show "re_count n cls s = Some r" by (auto simp: re_count_def)
qed

lemma re_lit_Some_iff: "re_lit lit s = Some r \<longleftrightarrow> s = lit @ r"
proof
  assume "re_lit lit s = Some r"
  then have "take (length lit) s = lit" "r = drop (length lit) s"
    by (auto simp: re_lit_def split: if_splits)
  then show "s = lit @ r" by (metis append_take_drop_id)
next
  assume "s = lit @ r"
  then show "re_lit lit s = Some r" by (simp add: re_lit_def)
qed

lemma re_dot_Some_iff: "re_dot s = Some r \<longleftrightarrow> (\<exists>c. s = c # r \<and> \<not> isLineTerminator c)"
  by (cases s) (auto simp: re_dot_def)

lemma re_plus_Some_iff:
  "re_plus cls s = Some (t, r) \<longleftrightarrow>
     t \<noteq> [] \<and> s = t @ r \<and> list_all cls t \<and> (r = [] \<or> \<not> cls (hd r))"
proof
  assume "re_plus cls s = Some (t, r)"
  then have t: "t = takeWhile cls s" "r = dropWhile cls s" "t \<noteq> []"
    by (auto simp: re_plus_def split: if_splits)
  have "list_all cls (takeWhile cls s)"
    by (simp add: list_all_iff) (meson set_takeWhileD)
  moreover have "dropWhile cls s = [] \<or> \<not> cls (hd (dropWhile cls s))"
    using hd_dropWhile by blast
  ultimately show "t \<noteq> [] \<and> s = t @ r \<and> list_all cls t \<and> (r = [] \<or> \<not> cls (hd r))"
    using t by simp
next
  assume h: "t \<noteq> [] \<and> s = t @ r \<and> list_all cls t \<and> (r = [] \<or> \<not> cls (hd r))"
  then have "takeWhile cls s = t \<and> dropWhile cls s = r"
    by (cases r) (auto simp: list_all_iff takeWhile_append2 dropWhile_append2)
  with h show "re_plus cls s = Some (t, r)" by (simp add: re_plus_def)
qed

lemma uid_re_Some_iff:
  "uid_re s = Some tok \<longleftrightarrow>
     (\<exists>p q c. s = p @ js ''-'' @ tok @ js ''-'' @ q @ js ''@afosterri'' @ [c] @ js ''org'' \<and>
        length p = 10 \<and> list_all isDigit p \<and> tok \<noteq> [] \<and> list_all isWordChar tok \<and>
        length q = 6 \<and> list_all isDigit q \<and> \<not> isLineTerminator c)"
proof
  assume "uid_re s = Some tok"
  then obtain r1 r2 r3 r4 r5 r6 r7 r8 where
    h: "re_count 10 isDigit s = Some r1" "re_lit (js ''-'') r1 = Some r2"
       "re_plus isWordChar r2 = Some (tok, r3)" "re_lit (js ''-'') r3 = Some r4"
       "re_count 6 isDigit r4 = Some r5" "re_lit (js ''@afosterri'') r5 = Some r6"
       "re_dot r6 = Some r7" "re_lit (js ''org'') r7 = Some r8" "r8 = []"
    by (auto simp: uid_re_def bind_eq_Some_conv split: if_splits)
  from h(1) obtain p where p: "s = p @ r1" "length p = 10" "list_all isDigit p"
    by (auto simp: re_count_Some_iff)
  from h(5) obtain q where q: "r4 = q @ r5" "length q = 6" "list_all isDigit q"
    by (auto simp: re_count_Some_iff)
  from h(7) obtain c where c: "r6 = c # r7" "\<not> isLineTerminator c"
    by (auto simp: re_dot_Some_iff)
  from h(3) have t: "tok \<noteq> []" "r2 = tok @ r3" "list_all isWordChar tok"
    by (auto simp: re_plus_Some_iff)
  from h(2,4,6,8,9) have "r1 = js ''-'' @ r2" "r3 = js ''-'' @ r4" "r5 = js ''@afosterri'' @ r6"
    "r7 = js ''org''"
    by (simp_all add: re_lit_Some_iff)
  with p q c t have "s = p @ js ''-'' @ tok @ js ''-'' @ q @ js ''@afosterri'' @ [c] @ js ''org''"
    by simp
  with p q c t show "\<exists>p q c. s = p @ js ''-'' @ tok @ js ''-'' @ q @ js ''@afosterri'' @ [c] @ js ''org'' \<and>
        length p = 10 \<and> list_all isDigit p \<and> tok \<noteq> [] \<and> list_all isWordChar tok \<and>
        length q = 6 \<and> list_all isDigit q \<and> \<not> isLineTerminator c"
    by blast
next
  assume "\<exists>p q c. s = p @ js ''-'' @ tok @ js ''-'' @ q @ js ''@afosterri'' @ [c] @ js ''org'' \<and>
        length p = 10 \<and> list_all isDigit p \<and> tok \<noteq> [] \<and> list_all isWordChar tok \<and>
        length q = 6 \<and> list_all isDigit q \<and> \<not> isLineTerminator c"
  then obtain p q c where
    h: "s = p @ js ''-'' @ tok @ js ''-'' @ q @ js ''@afosterri'' @ [c] @ js ''org''"
       "length p = 10" "list_all isDigit p" "tok \<noteq> []" "list_all isWordChar tok"
       "length q = 6" "list_all isDigit q" "\<not> isLineTerminator c"
    by blast
  let ?r7 = "js ''org''"
  let ?r6 = "c # ?r7"
  let ?r5 = "js ''@afosterri'' @ ?r6"
  let ?r4 = "q @ ?r5"
  let ?r3 = "js ''-'' @ ?r4"
  let ?r2 = "tok @ ?r3"
  let ?r1 = "js ''-'' @ ?r2"
  have 1: "re_count 10 isDigit s = Some ?r1"
    using h by (simp add: re_count_Some_iff)
  have 2: "re_lit (js ''-'') ?r1 = Some ?r2" by (simp add: re_lit_Some_iff)
  have "\<not> isWordChar (hd ?r3)" by (simp add: js_def isWordChar_def)
  then have 3: "re_plus isWordChar ?r2 = Some (tok, ?r3)"
    using h by (simp add: re_plus_Some_iff)
  have 4: "re_lit (js ''-'') ?r3 = Some ?r4" by (simp add: re_lit_Some_iff)
  have 5: "re_count 6 isDigit ?r4 = Some ?r5"
    using h by (simp add: re_count_Some_iff)
  have 6: "re_lit (js ''@afosterri'') ?r5 = Some ?r6" by (simp add: re_lit_Some_iff)
  have 7: "re_dot ?r6 = Some ?r7" using h by (simp add: re_dot_Some_iff)
  have 8: "re_lit (js ''org'') ?r7 = Some []" by (simp add: re_lit_Some_iff)
  show "uid_re s = Some tok"
    unfolding uid_re_def by (simp only: 1 2 3 4 5 6 7 8 Option.bind.simps prod.case) simp
qed

text \<open>
  Claim C9. The uid \<open>1234567890-abc123-999999@afosterriXorg\<close> has an \<open>X\<close> at index 34, where
  the fixed domain has its dot. The pattern matches it, \<open>extractCalciumId\<close> returns the
  middle token \<open>abc123\<close>, and so does the rule of the shape for the key \<open>uid\<close>.
\<close>

theorem uid_wildcard_accepted:
  "js ''1234567890-abc123-999999@afosterriXorg'' ! 34 = of_char CHR ''X'' \<and>
   js ''1234567890-abc123-999999@afosterri.org'' ! 34 = of_char CHR ''.'' \<and>
   uid_re (js ''1234567890-abc123-999999@afosterriXorg'') = Some (js ''abc123'') \<and>
   extractCalciumId (js ''1234567890-abc123-999999@afosterriXorg'') = Inr (js ''abc123'') \<and>
   shape_uid (JStr (js ''1234567890-abc123-999999@afosterriXorg'')) = ZOk (js ''abc123'')"
  by (simp add: js_def uid_re_def re_count_def re_lit_def re_plus_def re_dot_def isDigit_def
      isWordChar_def isLineTerminator_def extractCalciumId_def shape_uid_def z_transform_def
      z_string_def)

section \<open>Category resolution: properties\<close>

lemma cabin_of_Some: "cabin_of (Some k) = (case cabinMap k of JNull \<Rightarrow> JNull | v \<Rightarrow> v)"
  by (cases k)
    (simp_all add: cabin_of_def js_nullish_def js_and_def categories_value_def cabinMap_at_def
      js_def)

text \<open>
  With no category, \<open>data.categories && ...\<close> is \<open>undefined\<close> and \<open>?? null\<close> turns it into
  \<open>null\<close>: the event never carries \<open>undefined\<close> as its cabin.
\<close>

theorem cabin_of_absent_counterexample: "cabin_of None \<noteq> JUndefined"
  by (simp add: cabin_of_def js_nullish_def js_and_def categories_value_def cabinMap_at_def)

text \<open>
  Claim C4, as amended. An absent category resolves to \<open>null\<close>, and so does \<open>Meeting\<close>; each
  of the other five keys resolves to its entry of the table, a non-empty string, and the
  five entries differ from one another.
\<close>

theorem cabin_of_table:
  "cabin_of None = JNull \<and> cabin_of (Some Meeting) = JNull \<and>
   (\<forall>k. k \<noteq> Meeting \<longrightarrow>
      cabin_of (Some k) = cabinMap k \<and> (\<exists>s. s \<noteq> [] \<and> cabinMap k = JStr s)) \<and>
   distinct (map (\<lambda>k. cabin_of (Some k)) [Foster, House, Ide, Kendrew, Mosher])"
proof -
  have a: "cabin_of None = JNull"
    by (simp add: cabin_of_def js_nullish_def js_and_def categories_value_def cabinMap_at_def)
  have b: "cabin_of (Some Meeting) = JNull"
    by (simp add: cabin_of_Some)
  have c: "k \<noteq> Meeting \<longrightarrow>
      cabin_of (Some k) = cabinMap k \<and> (\<exists>s. s \<noteq> [] \<and> cabinMap k = JStr s)" for k
    by (cases k) (simp_all add: cabin_of_Some js_def)
  have d: "distinct (map (\<lambda>k. cabin_of (Some k)) [Foster, House, Ide, Kendrew, Mosher])"
    by (simp add: cabin_of_Some js_def)
  from a b c d show ?thesis by blast
qed

theorem cabin_of_table_witness:
  "Foster \<noteq> Meeting \<and>
   cabin_of (Some Foster) = JStr (js ''45617389-7678-42bf-bfb4-83304a389dc7'')"
  using cabin_of_table by simp

section \<open>The map over the components\<close>

lemma map_events_append:
  "map_events f (xs @ ys) i st =
     (case map_events f xs i st of
        (rs, st') \<Rightarrow> (case map_events f ys (i + length xs) st' of
                       (rs', st'') \<Rightarrow> (rs @ rs', st'')))"
  by (induction xs arbitrary: i st) (auto split: prod.splits)

lemma map_events_split:
  assumes "i < length cs"
  shows "map_events f cs j st =
     (case map_events f (take i cs) j st of
        (r1, s1) \<Rightarrow> (case f (cs ! i) (j + i) s1 of
          (r, s) \<Rightarrow> (case map_events f (drop (Suc i) cs) (Suc (j + i)) s of
            (r2, s2) \<Rightarrow> (r1 @ r # r2, s2))))"
proof -
  have "cs = take i cs @ cs ! i # drop (Suc i) cs"
    using assms by (simp add: id_take_nth_drop)
  then have "map_events f cs j st = map_events f (take i cs @ cs ! i # drop (Suc i) cs) j st"
    by simp
  also have "\<dots> = (case map_events f (take i cs) j st of
        (r1, s1) \<Rightarrow> (case f (cs ! i) (j + i) s1 of
          (r, s) \<Rightarrow> (case map_events f (drop (Suc i) cs) (Suc (j + i)) s of
            (r2, s2) \<Rightarrow> (r1 @ r # r2, s2))))"
    using assms by (simp add: map_events_append min_def split: prod.splits)
  finally show ?thesis .
qed

lemma fst_map_events_Cons:
  "fst (map_events f (c # cs) i st) =
     fst (f c i st) # fst (map_events f cs (Suc i) (snd (f c i st)))"
  by (simp split: prod.splits)

lemma snd_map_events_Cons:
  "snd (map_events f (c # cs) i st) = snd (map_events f cs (Suc i) (snd (f c i st)))"
  by (simp split: prod.splits)

lemma length_map_events: "length (fst (map_events f cs i st)) = length cs"
  by (induction cs arbitrary: i st) (simp_all add: fst_map_events_Cons del: map_events.simps(2))

lemma set_filter_defined: "set (filter_defined rs) = {e. Some e \<in> set rs}"
  by (induction rs rule: filter_defined.induct) auto


text \<open>
  What one call of the callback returns depends neither on the index nor on the buckets,
  and the buckets only grow.
\<close>

lemma callback_fst_indep:
  "fst (callback V P now co c i st) = fst (callback V P now co c j st')"
  by (simp add: callback_def Let_def split: sum.splits)

lemma map_events_fst_indep:
  "fst (map_events (callback V P now co) cs i st) = fst (map_events (callback V P now co) cs j st')"
proof (induction cs arbitrary: i j st st')
  case Nil
  show ?case by simp
next
  case (Cons c cs)
  have "fst (callback V P now co c i st) = fst (callback V P now co c j st')"
    by (rule callback_fst_indep)
  moreover have "fst (map_events (callback V P now co) cs (Suc i) (snd (callback V P now co c i st))) =
      fst (map_events (callback V P now co) cs (Suc j) (snd (callback V P now co c j st')))"
    by (rule Cons.IH)
  ultimately show ?case by (simp only: fst_map_events_Cons)
qed

lemma callback_Some:
  "callback V P now co c i st = (Some e, st') \<Longrightarrow>
     st' = st \<and> (\<exists>obj d. extract_record (getAllProperties c) [] = Inr obj \<and> V obj = Inr d \<and>
        \<not> cut_off P co (resolved_dates now d) \<and> e = make_event d (resolved_dates now d))"
  by (auto simp: callback_def Let_def split: sum.splits if_splits)

lemma map_events_Some:
  "Some e \<in> set (fst (map_events (callback V P now co) cs i st)) \<Longrightarrow>
     \<exists>c \<in> set cs. \<exists>obj d. extract_record (getAllProperties c) [] = Inr obj \<and> V obj = Inr d \<and>
        \<not> cut_off P co (resolved_dates now d) \<and> e = make_event d (resolved_dates now d)"
proof (induction cs arbitrary: i st)
  case Nil
  then show ?case by simp
next
  case (Cons c cs)
  obtain r s where a: "callback V P now co c i st = (r, s)" by (cases "callback V P now co c i st")
  obtain rs s' where b: "map_events (callback V P now co) cs (Suc i) s = (rs, s')"
    by (cases "map_events (callback V P now co) cs (Suc i) s")
  from Cons.prems a b have "Some e = r \<or> Some e \<in> set rs" by auto
  then show ?case
  proof
    assume "Some e = r"
    with a have "callback V P now co c i st = (Some e, s)" by simp
    from callback_Some [OF this] show ?thesis by auto
  next
    assume "Some e \<in> set rs"
    with b have "Some e \<in> set (fst (map_events (callback V P now co) cs (Suc i) s))" by simp
    from Cons.IH [OF this] show ?thesis by auto
  qed
qed

lemma callback_broken:
  "extract_record (getAllProperties c) [] = Inl e \<Longrightarrow>
     callback V P now co c i st =
       (None, st\<lparr>broken := broken st @ [Diagnostic i (getAllProperties c) e]\<rparr>)"
  by (simp add: callback_def)

lemma parsed_ImportICS:
  "parsed (ImportICS V P now events co) =
     filter_defined (fst (map_events (callback V P now co) events 0 \<lparr>broken = [], unparsed = []\<rparr>))"
  by (simp add: ImportICS_def Let_def split: prod.splits)

lemma final_ImportICS:
  "final (ImportICS V P now events co) =
     snd (map_events (callback V P now co) events 0 \<lparr>broken = [], unparsed = []\<rparr>)"
  by (simp add: ImportICS_def Let_def split: prod.splits)

lemma parsed_provenance:
  assumes "e \<in> set (parsed (ImportICS V P now events co))"
  shows "\<exists>c \<in> set events. \<exists>obj d. extract_record (getAllProperties c) [] = Inr obj \<and> V obj = Inr d \<and>
        \<not> cut_off P co (resolved_dates now d) \<and> e = make_event d (resolved_dates now d)"
  using assms map_events_Some [of e V P now co events 0] by (simp add: parsed_ImportICS set_filter_defined)

lemma parsed_split:
  assumes "i < length events"
  shows "parsed (ImportICS V P now events co) =
     parsed (ImportICS V P now (take i events) co)
       @ filter_defined [fst (callback V P now co (events ! i) i st)]
       @ parsed (ImportICS V P now (drop (Suc i) events) co)"
proof -
  let ?f = "callback V P now co"
  let ?E = "\<lparr>broken = [], unparsed = []\<rparr>"
  have fd: "filter_defined (xs @ ys) = filter_defined xs @ filter_defined ys" for xs ys
    by (induction xs rule: filter_defined.induct) simp_all
  have fd1: "filter_defined (xs @ x # ys) = filter_defined xs @ filter_defined [x] @ filter_defined ys"
    for x xs ys
    by (cases x) (simp_all add: fd)
  obtain r1 s1 where a: "map_events ?f (take i events) 0 ?E = (r1, s1)"
    by (cases "map_events ?f (take i events) 0 ?E")
  obtain r s where b: "?f (events ! i) i s1 = (r, s)" by (cases "?f (events ! i) i s1")
  obtain r2 s2 where c: "map_events ?f (drop (Suc i) events) (Suc i) s = (r2, s2)"
    by (cases "map_events ?f (drop (Suc i) events) (Suc i) s")
  have "fst (map_events ?f events 0 ?E) = r1 @ r # r2"
    using map_events_split [OF assms, of ?f 0 ?E] a b c by simp
  then have "parsed (ImportICS V P now events co) =
      filter_defined r1 @ filter_defined [r] @ filter_defined r2"
    by (simp only: parsed_ImportICS fd1)
  moreover have "r = fst (?f (events ! i) i st)"
    using b callback_fst_indep [of V P now co "events ! i" i s1 i st] by simp
  moreover have "r2 = fst (map_events ?f (drop (Suc i) events) 0 ?E)"
    using c map_events_fst_indep [of V P now co "drop (Suc i) events" "Suc i" s 0 ?E] by simp
  moreover have "r1 = fst (map_events ?f (take i events) 0 ?E)"
    using a by simp
  ultimately show ?thesis
    by (simp only: parsed_ImportICS)
qed


lemma broken_numbers:
  "g \<in> set (broken (snd (map_events (callback V P now co) cs j st))) \<Longrightarrow>
     g \<in> set (broken st) \<or>
     (j \<le> number g \<and> number g < j + length cs \<and>
      (\<exists>e. extract_record (getAllProperties (cs ! (number g - j))) [] = Inl e))"
proof (induction cs arbitrary: j st)
  case Nil
  then show ?case by simp
next
  case (Cons c cs)
  let ?s = "snd (callback V P now co c j st)"
  from Cons.prems have "g \<in> set (broken (snd (map_events (callback V P now co) cs (Suc j) ?s)))"
    by (simp only: snd_map_events_Cons)
  from Cons.IH [OF this] show ?case
  proof
    assume "g \<in> set (broken ?s)"
    then have "g \<in> set (broken st) \<or>
        (number g = j \<and> (\<exists>e. extract_record (getAllProperties c) [] = Inl e))"
      by (auto simp: callback_def Let_def split: sum.splits if_splits)
    then show ?thesis by auto
  next
    assume h: "Suc j \<le> number g \<and> number g < Suc j + length cs \<and>
      (\<exists>e. extract_record (getAllProperties (cs ! (number g - Suc j))) [] = Inl e)"
    then have "number g - j = Suc (number g - Suc j)" by arith
    then have "(c # cs) ! (number g - j) = cs ! (number g - Suc j)" by simp
    with h show ?thesis by auto
  qed
qed

lemma unparsed_numbers:
  "g \<in> set (unparsed (snd (map_events (callback V P now co) cs j st))) \<Longrightarrow>
     g \<in> set (unparsed st) \<or>
     (j \<le> number g \<and> number g < j + length cs \<and>
      (\<exists>obj err. extract_record (getAllProperties (cs ! (number g - j))) [] = Inr obj \<and>
         V obj = Inl err))"
proof (induction cs arbitrary: j st)
  case Nil
  then show ?case by simp
next
  case (Cons c cs)
  let ?s = "snd (callback V P now co c j st)"
  from Cons.prems have "g \<in> set (unparsed (snd (map_events (callback V P now co) cs (Suc j) ?s)))"
    by (simp only: snd_map_events_Cons)
  from Cons.IH [OF this] show ?case
  proof
    assume "g \<in> set (unparsed ?s)"
    then have "g \<in> set (unparsed st) \<or>
        (number g = j \<and> (\<exists>obj err. extract_record (getAllProperties c) [] = Inr obj \<and>
         V obj = Inl err))"
      by (auto simp: callback_def Let_def split: sum.splits if_splits)
    then show ?thesis by auto
  next
    assume h: "Suc j \<le> number g \<and> number g < Suc j + length cs \<and>
      (\<exists>obj err. extract_record (getAllProperties (cs ! (number g - Suc j))) [] = Inr obj \<and>
         V obj = Inl err)"
    then have "number g - j = Suc (number g - Suc j)" by arith
    then have "(c # cs) ! (number g - j) = cs ! (number g - Suc j)" by simp
    with h show ?thesis by auto
  qed
qed

lemma unparsed_mono:
  "set (unparsed st) \<subseteq> set (unparsed (snd (map_events (callback V P now co) cs j st)))"
proof (induction cs arbitrary: j st)
  case Nil
  show ?case by simp
next
  case (Cons c cs)
  have "set (unparsed st) \<subseteq> set (unparsed (snd (callback V P now co c j st)))"
    by (auto simp: callback_def Let_def split: sum.splits)
  also have "\<dots> \<subseteq> set (unparsed (snd (map_events (callback V P now co) cs (Suc j)
      (snd (callback V P now co c j st)))))"
    by (rule Cons.IH)
  finally show ?case by (simp only: snd_map_events_Cons)
qed


section \<open>Date ranges\<close>

lemma resolved_dates_le: "valueOf (fst (resolved_dates now d)) \<le> valueOf (snd (resolved_dates now d))"
  by (simp add: resolved_dates_def Let_def isBefore_def)

lemma formatDate_nonempty: "formatDate x \<noteq> []"
  by (simp add: formatDate_def Let_def js_def)

lemma formatDate_length: "10 \<le> length (formatDate x)"
  by (simp add: formatDate_def Let_def js_def padStart_def)

lemma cut_off_iff:
  "cut_off P (Some s) ds \<longleftrightarrow> s \<noteq> [] \<and> (\<exists>D. P s = Some D \<and> valueOf D < valueOf (snd ds))"
  by (auto simp: cut_off_def isAfter_def split: option.splits)


lemma resolved_dates_cases:
  "resolved_dates now d = initial_dates now d \<or>
   resolved_dates now d = (snd (initial_dates now d), fst (initial_dates now d))"
  by (simp add: resolved_dates_def Let_def)

lemma resolved_dates_strings:
  assumes s: "calendar_date (dtstart d)"
    and u: "\<forall>r. rrule d = Some r \<longrightarrow> calendar_date (until r)"
  shows "formatDate (fst (resolved_dates now d)) \<le> formatDate (snd (resolved_dates now d))"
proof -
  have y: "0 \<le> YearFromDay (valueOf (parseDate now obj)) \<and> YearFromDay (valueOf (parseDate now obj)) \<le> 9999"
    if "calendar_date obj" for obj
    using parseDate_calendar_date [OF that] that by (simp add: calendar_date_def)
  have a: "0 \<le> YearFromDay (valueOf (fst (initial_dates now d))) \<and>
      YearFromDay (valueOf (fst (initial_dates now d))) \<le> 9999"
    using y [OF s] by (simp add: initial_dates_def)
  have b: "0 \<le> YearFromDay (valueOf (snd (initial_dates now d))) \<and>
      YearFromDay (valueOf (snd (initial_dates now d))) \<le> 9999"
    using y [OF s] u y by (cases "rrule d") (simp_all add: initial_dates_def)
  from resolved_dates_cases [of now d] a b
  have "0 \<le> YearFromDay (valueOf (fst (resolved_dates now d)))"
    and "YearFromDay (valueOf (snd (resolved_dates now d))) \<le> 9999"
    by auto
  with resolved_dates_le [of now d] show ?thesis by (intro formatDate_mono)
qed

text \<open>
  Claim C1. The first boundary is the parsed \<open>dtstart\<close>; the second is the parsed
  \<open>rrule.until\<close> when a recurrence is present and the parsed \<open>dtstart\<close> otherwise; the two
  are swapped exactly when the second lies before the first, so that the resolved start is
  never after the resolved end. Every accepted record comes from a component whose
  validated data \<open>d'\<close> resolves to such a pair, and its \<open>dates.start\<close> and \<open>dates.end\<close> are
  the formatted start and end of that pair. When \<open>dtstart\<close> and \<open>until\<close> are dates of the
  calendar with a year from 100 to 9999, the two strings themselves compare
  \<open>dates.start <= dates.end\<close>.
\<close>

theorem accepted_dates_ordered:
  "fst (initial_dates now d) = parseDate now (dtstart d) \<and>
   snd (initial_dates now d) =
     (case rrule d of Some r \<Rightarrow> parseDate now (until r) | None \<Rightarrow> parseDate now (dtstart d)) \<and>
   resolved_dates now d =
     (if valueOf (snd (initial_dates now d)) < valueOf (fst (initial_dates now d))
      then (snd (initial_dates now d), fst (initial_dates now d)) else initial_dates now d) \<and>
   valueOf (fst (resolved_dates now d)) \<le> valueOf (snd (resolved_dates now d)) \<and>
   (\<forall>e \<in> set (parsed (ImportICS V P now events dateCutoff)).
      \<exists>c \<in> set events. \<exists>obj d'.
        extract_record (getAllProperties c) [] = Inr obj \<and> V obj = Inr d' \<and>
        start_date (dates e) = formatDate (fst (resolved_dates now d')) \<and>
        end_date (dates e) = formatDate (snd (resolved_dates now d')) \<and>
        valueOf (fst (resolved_dates now d')) \<le> valueOf (snd (resolved_dates now d')) \<and>
        (calendar_date (dtstart d') \<and> (\<forall>r. rrule d' = Some r \<longrightarrow> calendar_date (until r)) \<longrightarrow>
           start_date (dates e) \<le> end_date (dates e)))"
proof -
  have a: "fst (initial_dates now d) = parseDate now (dtstart d)"
    by (simp add: initial_dates_def)
  have b: "snd (initial_dates now d) =
     (case rrule d of Some r \<Rightarrow> parseDate now (until r) | None \<Rightarrow> parseDate now (dtstart d))"
    by (simp add: initial_dates_def split: option.splits)
  have c: "resolved_dates now d =
     (if valueOf (snd (initial_dates now d)) < valueOf (fst (initial_dates now d))
      then (snd (initial_dates now d), fst (initial_dates now d)) else initial_dates now d)"
    by (simp add: resolved_dates_def Let_def isBefore_def)
  have e: "\<exists>c \<in> set events. \<exists>obj d'.
        extract_record (getAllProperties c) [] = Inr obj \<and> V obj = Inr d' \<and>
        start_date (dates e) = formatDate (fst (resolved_dates now d')) \<and>
        end_date (dates e) = formatDate (snd (resolved_dates now d')) \<and>
        valueOf (fst (resolved_dates now d')) \<le> valueOf (snd (resolved_dates now d')) \<and>
        (calendar_date (dtstart d') \<and> (\<forall>r. rrule d' = Some r \<longrightarrow> calendar_date (until r)) \<longrightarrow>
           start_date (dates e) \<le> end_date (dates e))"
    if "e \<in> set (parsed (ImportICS V P now events dateCutoff))" for e
  proof -
    from parsed_provenance [OF that] obtain c obj d' where
      h: "c \<in> set events" "extract_record (getAllProperties c) [] = Inr obj" "V obj = Inr d'"
         "e = make_event d' (resolved_dates now d')"
      by blast
    from h(4) have f: "start_date (dates e) = formatDate (fst (resolved_dates now d'))"
      "end_date (dates e) = formatDate (snd (resolved_dates now d'))"
      by (simp_all add: make_event_def)
    have "start_date (dates e) \<le> end_date (dates e)"
      if "calendar_date (dtstart d') \<and> (\<forall>r. rrule d' = Some r \<longrightarrow> calendar_date (until r))"
      using resolved_dates_strings [where d = d' and now = now] that f by simp
    with h f resolved_dates_le [of now d'] show ?thesis by blast
  qed
  from a b c resolved_dates_le [of now d] e show ?thesis by blast
qed

theorem accepted_dates_ordered_witness:
  "parsed (ImportICS validate dayjs_iso sample_clock [team_meeting_daily] None) =
     [team_meeting_event JNull (js ''2024-01-10'') (js ''2024-01-15'')] \<and>
   js ''2024-01-10'' \<le> js ''2024-01-15'' \<and>
   (\<exists>c \<in> set [team_meeting_daily]. \<exists>obj d'.
        extract_record (getAllProperties c) [] = Inr obj \<and> validate obj = Inr d' \<and>
        js ''2024-01-10'' = formatDate (fst (resolved_dates sample_clock d')) \<and>
        js ''2024-01-15'' = formatDate (snd (resolved_dates sample_clock d')) \<and>
        valueOf (fst (resolved_dates sample_clock d')) \<le> valueOf (snd (resolved_dates sample_clock d')))"
proof -
  have run: "parsed (ImportICS validate dayjs_iso sample_clock [team_meeting_daily] None) =
     [team_meeting_event JNull (js ''2024-01-10'') (js ''2024-01-15'')]"
    by code_simp
  from accepted_dates_ordered [where V = validate and P = dayjs_iso and now = sample_clock
      and events = "[team_meeting_daily]" and dateCutoff = None]
  have "\<forall>e \<in> set (parsed (ImportICS validate dayjs_iso sample_clock [team_meeting_daily] None)).
      \<exists>c \<in> set [team_meeting_daily]. \<exists>obj d'.
        extract_record (getAllProperties c) [] = Inr obj \<and> validate obj = Inr d' \<and>
        start_date (dates e) = formatDate (fst (resolved_dates sample_clock d')) \<and>
        end_date (dates e) = formatDate (snd (resolved_dates sample_clock d')) \<and>
        valueOf (fst (resolved_dates sample_clock d')) \<le> valueOf (snd (resolved_dates sample_clock d'))"
    by blast
  moreover have "js ''2024-01-10'' \<le> js ''2024-01-15''" by (simp add: js_def)
  ultimately show ?thesis using run by (simp add: team_meeting_event_def)
qed


text \<open>
  Claim C10. The list \<open>rr\<close> of accepted records with a falsy end date is empty in every
  run: each accepted \<open>dates.end\<close> is a formatted date, a string of at least ten code units.
\<close>

theorem no_end_day_is_empty:
  "rr (ImportICS V P now events dateCutoff) = [] \<and>
   (\<forall>e \<in> set (parsed (ImportICS V P now events dateCutoff)).
      end_date (dates e) \<noteq> [] \<and> 10 \<le> length (end_date (dates e)))"
proof -
  have e: "end_date (dates e) \<noteq> [] \<and> 10 \<le> length (end_date (dates e))"
    if "e \<in> set (parsed (ImportICS V P now events dateCutoff))" for e
  proof -
    from parsed_provenance [OF that] obtain d' where "e = make_event d' (resolved_dates now d')"
      by blast
    then have "end_date (dates e) = formatDate (snd (resolved_dates now d'))"
      by (simp add: make_event_def)
    then show ?thesis using formatDate_nonempty formatDate_length by simp
  qed
  have "rr (ImportICS V P now events dateCutoff) =
      filter (\<lambda>c. length (end_date (dates c)) = 0) (parsed (ImportICS V P now events dateCutoff))"
    by (simp add: ImportICS_def Let_def split: prod.splits)
  also have "\<dots> = []"
    using e by (simp add: filter_empty_conv)
  finally show ?thesis using e by blast
qed

theorem no_end_day_is_empty_witness:
  "parsed (ImportICS validate dayjs_iso sample_clock [team_meeting] None) =
     [team_meeting_event JNull (js ''2024-01-15'') (js ''2024-01-15'')] \<and>
   rr (ImportICS validate dayjs_iso sample_clock [team_meeting] None) = [] \<and>
   end_date (dates (team_meeting_event JNull (js ''2024-01-15'') (js ''2024-01-15''))) \<noteq> []"
proof -
  have run: "parsed (ImportICS validate dayjs_iso sample_clock [team_meeting] None) =
     [team_meeting_event JNull (js ''2024-01-15'') (js ''2024-01-15'')]"
    by code_simp
  with no_end_day_is_empty [of validate dayjs_iso sample_clock "[team_meeting]" None] show ?thesis
    by simp
qed


section \<open>The cutoff\<close>

text \<open>
  Claim C5. Let a non-empty cutoff string be supplied that the library reads as the date
  \<open>D\<close>. Then every accepted record comes from validated data whose resolved end is not
  after \<open>D\<close>. And a component that extracts and validates to data whose resolved end is
  after \<open>D\<close> leaves no trace: its callback returns \<open>undefined\<close> with the buckets as they
  were, the accepted list is that of the components before it followed by that of the
  components after it, and no diagnostic in \<open>broken\<close> or \<open>unparsed\<close> carries its index.
\<close>

theorem cutoff_drops_later_events:
  assumes "dateCutoff = Some s" and "s \<noteq> []" and "P s = Some D"
  shows "(\<forall>e \<in> set (parsed (ImportICS V P now events dateCutoff)).
            \<exists>c \<in> set events. \<exists>obj d.
              extract_record (getAllProperties c) [] = Inr obj \<and> V obj = Inr d \<and>
              end_date (dates e) = formatDate (snd (resolved_dates now d)) \<and>
              valueOf (snd (resolved_dates now d)) \<le> valueOf D) \<and>
         (\<forall>i obj d. i < length events
              \<and> extract_record (getAllProperties (events ! i)) [] = Inr obj \<and> V obj = Inr d
              \<and> valueOf D < valueOf (snd (resolved_dates now d)) \<longrightarrow>
            callback V P now dateCutoff (events ! i) i st = (None, st) \<and>
            parsed (ImportICS V P now events dateCutoff) =
              parsed (ImportICS V P now (take i events) dateCutoff)
                @ parsed (ImportICS V P now (drop (Suc i) events) dateCutoff) \<and>
            (\<forall>g \<in> set (broken (final (ImportICS V P now events dateCutoff))). number g \<noteq> i) \<and>
            (\<forall>g \<in> set (unparsed (final (ImportICS V P now events dateCutoff))). number g \<noteq> i))"
proof -
  have A: "\<exists>c \<in> set events. \<exists>obj d.
              extract_record (getAllProperties c) [] = Inr obj \<and> V obj = Inr d \<and>
              end_date (dates e) = formatDate (snd (resolved_dates now d)) \<and>
              valueOf (snd (resolved_dates now d)) \<le> valueOf D"
    if "e \<in> set (parsed (ImportICS V P now events dateCutoff))" for e
  proof -
    from parsed_provenance [OF that] obtain c obj d where
      h: "c \<in> set events" "extract_record (getAllProperties c) [] = Inr obj" "V obj = Inr d"
         "\<not> cut_off P dateCutoff (resolved_dates now d)" "e = make_event d (resolved_dates now d)"
      by blast
    from h(4) assms have "valueOf (snd (resolved_dates now d)) \<le> valueOf D"
      by (simp add: cut_off_iff)
    moreover from h(5) have "end_date (dates e) = formatDate (snd (resolved_dates now d))"
      by (simp add: make_event_def)
    ultimately show ?thesis using h by blast
  qed
  have B: "callback V P now dateCutoff (events ! i) i st = (None, st) \<and>
            parsed (ImportICS V P now events dateCutoff) =
              parsed (ImportICS V P now (take i events) dateCutoff)
                @ parsed (ImportICS V P now (drop (Suc i) events) dateCutoff) \<and>
            (\<forall>g \<in> set (broken (final (ImportICS V P now events dateCutoff))). number g \<noteq> i) \<and>
            (\<forall>g \<in> set (unparsed (final (ImportICS V P now events dateCutoff))). number g \<noteq> i)"
    if i: "i < length events"
      and ex: "extract_record (getAllProperties (events ! i)) [] = Inr obj"
      and v: "V obj = Inr d"
      and late: "valueOf D < valueOf (snd (resolved_dates now d))"
    for i obj d
  proof -
    have co: "cut_off P dateCutoff (resolved_dates now d)"
      using assms late by (simp add: cut_off_iff)
    have cb: "callback V P now dateCutoff (events ! i) i s = (None, s)" for s
      using ex v co by (simp add: callback_def)
    have p: "parsed (ImportICS V P now events dateCutoff) =
              parsed (ImportICS V P now (take i events) dateCutoff)
                @ parsed (ImportICS V P now (drop (Suc i) events) dateCutoff)"
      using parsed_split [OF i, of V P now dateCutoff st] by (simp add: cb)
    have b: "number g \<noteq> i" if "g \<in> set (broken (final (ImportICS V P now events dateCutoff)))" for g
      using broken_numbers [of g V P now dateCutoff events 0 "\<lparr>broken = [], unparsed = []\<rparr>"] that ex
      by (auto simp: final_ImportICS)
    have u: "number g \<noteq> i" if "g \<in> set (unparsed (final (ImportICS V P now events dateCutoff)))" for g
      using unparsed_numbers [of g V P now dateCutoff events 0 "\<lparr>broken = [], unparsed = []\<rparr>"] that ex v
      by (auto simp: final_ImportICS)
    from cb [of st] p b u show ?thesis by blast
  qed
  from A B show ?thesis by blast
qed

theorem cutoff_drops_later_events_witness:
  "js ''2024-01-14'' \<noteq> [] \<and> dayjs_iso (js ''2024-01-14'') = Some (Dayjs 19736) \<and>
   (1::nat) < length [early_meeting, team_meeting] \<and>
   extract_record (getAllProperties ([early_meeting, team_meeting] ! 1)) [] = Inr team_meeting_record \<and>
   validate team_meeting_record = Inr team_meeting_data \<and>
   valueOf (Dayjs 19736) < valueOf (snd (resolved_dates sample_clock team_meeting_data)) \<and>
   callback validate dayjs_iso sample_clock (Some (js ''2024-01-14'')) team_meeting 1 \<lparr>broken = [], unparsed = []\<rparr>
     = (None, \<lparr>broken = [], unparsed = []\<rparr>) \<and>
   length (parsed (ImportICS validate dayjs_iso sample_clock [early_meeting, team_meeting] (Some (js ''2024-01-14'')))) = 1 \<and>
   parsed (ImportICS validate dayjs_iso sample_clock [early_meeting, team_meeting] (Some (js ''2024-01-14''))) =
     parsed (ImportICS validate dayjs_iso sample_clock (take 1 [early_meeting, team_meeting]) (Some (js ''2024-01-14'')))
      @ parsed (ImportICS validate dayjs_iso sample_clock (drop (Suc 1) [early_meeting, team_meeting]) (Some (js ''2024-01-14'')))"
proof -
  have a: "js ''2024-01-14'' \<noteq> []" by (simp add: js_def)
  have b: "dayjs_iso (js ''2024-01-14'') = Some (Dayjs 19736)" by code_simp
  have c: "(1::nat) < length [early_meeting, team_meeting]" by simp
  have d: "extract_record (getAllProperties ([early_meeting, team_meeting] ! 1)) [] = Inr team_meeting_record"
    by code_simp
  have e: "validate team_meeting_record = Inr team_meeting_data" by code_simp
  have f: "valueOf (Dayjs 19736) < valueOf (snd (resolved_dates sample_clock team_meeting_data))" by code_simp
  have g: "length (parsed (ImportICS validate dayjs_iso sample_clock [early_meeting, team_meeting] (Some (js ''2024-01-14'')))) = 1"
    by code_simp
  have h: "Some (js ''2024-01-14'') = Some (js ''2024-01-14'')" by simp
  from cutoff_drops_later_events [where dateCutoff = "Some (js ''2024-01-14'')"
      and s = "js ''2024-01-14''" and P = dayjs_iso and D = "Dayjs 19736" and V = validate
      and now = sample_clock
      and events = "[early_meeting, team_meeting]" and st = "\<lparr>broken = [], unparsed = []\<rparr>",
      OF h a b] c d e f
  have "callback validate dayjs_iso sample_clock (Some (js ''2024-01-14'')) ([early_meeting, team_meeting] ! 1) 1
        \<lparr>broken = [], unparsed = []\<rparr> = (None, \<lparr>broken = [], unparsed = []\<rparr>) \<and>
      parsed (ImportICS validate dayjs_iso sample_clock [early_meeting, team_meeting] (Some (js ''2024-01-14''))) =
       parsed (ImportICS validate dayjs_iso sample_clock (take 1 [early_meeting, team_meeting]) (Some (js ''2024-01-14'')))
        @ parsed (ImportICS validate dayjs_iso sample_clock (drop (Suc 1) [early_meeting, team_meeting]) (Some (js ''2024-01-14'')))"
    by blast
  with a b c d e f g show ?thesis by simp
qed


section \<open>Extraction failures\<close>

lemma extract_record_raises:
  "p \<in> set props \<Longrightarrow> name p \<noteq> js ''exdate'' \<Longrightarrow> getValues p = Inl x \<Longrightarrow>
     \<exists>e. extract_record props obj = Inl e"
proof (induction props arbitrary: obj)
  case Nil
  then show ?case by simp
next
  case (Cons q props)
  show ?case
  proof (cases "p = q")
    case True
    with Cons.prems show ?thesis by simp
  next
    case False
    with Cons.prems have "p \<in> set props" by simp
    from Cons.IH [OF this Cons.prems(2,3)] show ?thesis
      by (simp split: sum.splits)
  qed
qed

lemma extract_record_Inl:
  "extract_record props obj = Inl e \<Longrightarrow>
     \<exists>q \<in> set props. name q \<noteq> js ''exdate'' \<and> getValues q = Inl e"
  by (induction props arbitrary: obj) (auto split: if_splits sum.splits)


text \<open>
  Claim C7. Let reading the values of some property of component \<open>i\<close>, other than
  \<open>exdate\<close>, throw. Then extraction ends with the exception \<open>e\<close> of such a property; the
  callback returns \<open>undefined\<close> and appends to \<open>broken\<close> the diagnostic with the index \<open>i\<close>,
  the properties of the component and \<open>e\<close>; the map goes on with the components after \<open>i\<close>
  from these buckets and yields one entry for every component; and the accepted list is
  that of the components before \<open>i\<close> followed by that of the components after it.
\<close>

theorem extraction_failure_goes_to_broken:
  assumes "i < length events"
    and "p \<in> set (getAllProperties (events ! i))"
    and "name p \<noteq> js ''exdate''"
    and "getValues p = Inl x"
  shows "\<exists>e. extract_record (getAllProperties (events ! i)) [] = Inl e \<and>
      (\<exists>q \<in> set (getAllProperties (events ! i)). name q \<noteq> js ''exdate'' \<and> getValues q = Inl e) \<and>
      callback V P now dateCutoff (events ! i) i st =
        (None, st\<lparr>broken := broken st @ [Diagnostic i (getAllProperties (events ! i)) e]\<rparr>) \<and>
      map_events (callback V P now dateCutoff) events 0 st =
        (case map_events (callback V P now dateCutoff) (take i events) 0 st of
           (r1, s1) \<Rightarrow>
             (case map_events (callback V P now dateCutoff) (drop (Suc i) events) (Suc i)
                     (s1\<lparr>broken := broken s1 @ [Diagnostic i (getAllProperties (events ! i)) e]\<rparr>) of
                (r2, s2) \<Rightarrow> (r1 @ None # r2, s2))) \<and>
      length (fst (map_events (callback V P now dateCutoff) events 0 st)) = length events \<and>
      parsed (ImportICS V P now events dateCutoff) =
        parsed (ImportICS V P now (take i events) dateCutoff)
          @ parsed (ImportICS V P now (drop (Suc i) events) dateCutoff)"
proof -
  let ?c = "events ! i"
  from extract_record_raises [OF assms(2,3,4)] obtain e where
    e: "extract_record (getAllProperties ?c) [] = Inl e" by blast
  have cb: "callback V P now dateCutoff ?c i s =
      (None, s\<lparr>broken := broken s @ [Diagnostic i (getAllProperties ?c) e]\<rparr>)" for s
    by (rule callback_broken [OF e])
  have "map_events (callback V P now dateCutoff) events 0 st =
        (case map_events (callback V P now dateCutoff) (take i events) 0 st of
           (r1, s1) \<Rightarrow>
             (case map_events (callback V P now dateCutoff) (drop (Suc i) events) (Suc i)
                     (s1\<lparr>broken := broken s1 @ [Diagnostic i (getAllProperties ?c) e]\<rparr>) of
                (r2, s2) \<Rightarrow> (r1 @ None # r2, s2)))"
    by (simp add: map_events_split [OF assms(1), of "callback V P now dateCutoff" 0 st] cb
        split: prod.splits)
  moreover have "parsed (ImportICS V P now events dateCutoff) =
        parsed (ImportICS V P now (take i events) dateCutoff)
          @ parsed (ImportICS V P now (drop (Suc i) events) dateCutoff)"
    using parsed_split [OF assms(1), of V P now dateCutoff st] by (simp add: cb)
  ultimately show ?thesis
    using e extract_record_Inl [OF e] cb [of st] length_map_events by blast
qed

theorem extraction_failure_goes_to_broken_witness:
  "(1::nat) < length [team_meeting, malformed, team_meeting_daily] \<and>
   Property (js ''dtstart'') (Inl (Error (js ''invalid date value'')))
     \<in> set (getAllProperties ([team_meeting, malformed, team_meeting_daily] ! 1)) \<and>
   js ''dtstart'' \<noteq> js ''exdate'' \<and>
   broken (final (ImportICS validate dayjs_iso sample_clock [team_meeting, malformed, team_meeting_daily] None)) =
     [Diagnostic 1 (getAllProperties malformed) (Error (js ''invalid date value''))] \<and>
   length (parsed (ImportICS validate dayjs_iso sample_clock [team_meeting, malformed, team_meeting_daily] None)) = 2 \<and>
   parsed (ImportICS validate dayjs_iso sample_clock [team_meeting, malformed, team_meeting_daily] None) =
     parsed (ImportICS validate dayjs_iso sample_clock (take 1 [team_meeting, malformed, team_meeting_daily]) None)
       @ parsed (ImportICS validate dayjs_iso sample_clock (drop (Suc 1) [team_meeting, malformed, team_meeting_daily]) None)"
proof -
  have a: "(1::nat) < length [team_meeting, malformed, team_meeting_daily]" by simp
  have b: "Property (js ''dtstart'') (Inl (Error (js ''invalid date value'')))
     \<in> set (getAllProperties ([team_meeting, malformed, team_meeting_daily] ! 1))"
    by (simp add: malformed_def)
  have c: "name (Property (js ''dtstart'') (Inl (Error (js ''invalid date value'')))) \<noteq> js ''exdate''"
    by (simp add: js_def)
  have d: "getValues (Property (js ''dtstart'') (Inl (Error (js ''invalid date value''))))
      = Inl (Error (js ''invalid date value''))"
    by simp
  have e: "broken (final (ImportICS validate dayjs_iso sample_clock [team_meeting, malformed, team_meeting_daily] None)) =
     [Diagnostic 1 (getAllProperties malformed) (Error (js ''invalid date value''))]"
    by code_simp
  have f: "length (parsed (ImportICS validate dayjs_iso sample_clock [team_meeting, malformed, team_meeting_daily] None)) = 2"
    by code_simp
  from extraction_failure_goes_to_broken [OF a b c d, of validate dayjs_iso sample_clock None]
  have "parsed (ImportICS validate dayjs_iso sample_clock [team_meeting, malformed, team_meeting_daily] None) =
     parsed (ImportICS validate dayjs_iso sample_clock (take 1 [team_meeting, malformed, team_meeting_daily]) None)
       @ parsed (ImportICS validate dayjs_iso sample_clock (drop (Suc 1) [team_meeting, malformed, team_meeting_daily]) None)"
    by blast
  with a b c e f show ?thesis using c by simp
qed


section \<open>Determinism\<close>







section \<open>Validation of the uid\<close>

lemma shape_uid_unmatched:
  "uid_re u = None \<Longrightarrow> shape_uid (JStr u) = ZThrow (Error (js ''bad id''))"
  by (simp add: shape_uid_def z_transform_def z_string_def extractCalciumId_def)

lemma validate_unmatched_uid:
  assumes "obj_get obj (js ''uid'') = JStr u" and "uid_re u = None"
  shows "\<exists>err. validate obj = Inl err \<and> (js ''uid'', Thrown (Error (js ''bad id''))) \<in> set err"
  using assms by (simp add: validate_def Let_def shape_uid_unmatched)

lemma shape_uid_ZOk:
  "shape_uid v = ZOk t \<Longrightarrow> \<exists>u. v = JStr u \<and> uid_re u = Some t"
  by (auto simp: shape_uid_def z_transform_def z_string_def extractCalciumId_def
      split: jsval.splits option.splits)

lemma validate_Inr_uid:
  assumes "validate obj = Inr d"
  shows "\<exists>u. obj_get obj (js ''uid'') = JStr u \<and> uid_re u = Some (uid d)"
proof -
  from assms have "shape_uid (obj_get obj (js ''uid'')) = ZOk (uid d)"
    by (cases "shape_uid (obj_get obj (js ''uid''))")
       (auto simp: validate_def Let_def split: zresult.splits)
  then show ?thesis by (rule shape_uid_ZOk)
qed


text \<open>
  What the code does with a uid that its regular expression does not match, in the flat
  record of component \<open>i\<close>: \<open>extractCalciumId\<close> throws \<open>bad id\<close> and does not return the
  string; validation fails with an error that names \<open>uid\<close>; the callback returns
  \<open>undefined\<close> and appends the diagnostic with index \<open>i\<close>, the record and the error to
  \<open>unparsed\<close>, where it is found at the end of the run; the accepted list is that of the
  components before \<open>i\<close> followed by that of the components after it; and every accepted
  import id is the token of a uid that the expression matches.
\<close>

lemma unmatched_uid_is_rejected:
  assumes "i < length events"
    and "extract_record (getAllProperties (events ! i)) [] = Inr obj"
    and "obj_get obj (js ''uid'') = JStr u"
    and "uid_re u = None"
  shows "extractCalciumId u = Inl (Error (js ''bad id'')) \<and>
     (\<exists>err. validate obj = Inl err \<and> (js ''uid'', Thrown (Error (js ''bad id''))) \<in> set err \<and>
        callback validate P now dateCutoff (events ! i) i st =
          (None, st\<lparr>unparsed := unparsed st @ [Diagnostic i obj err]\<rparr>) \<and>
        Diagnostic i obj err \<in> set (unparsed (final (ImportICS validate P now events dateCutoff)))) \<and>
     parsed (ImportICS validate P now events dateCutoff) =
       parsed (ImportICS validate P now (take i events) dateCutoff)
         @ parsed (ImportICS validate P now (drop (Suc i) events) dateCutoff) \<and>
     (\<forall>e \<in> set (parsed (ImportICS validate P now events dateCutoff)).
        \<exists>u'. uid_re u' = Some (importId e))"
proof -
  let ?c = "events ! i"
  let ?E = "\<lparr>broken = [], unparsed = []\<rparr>"
  let ?f = "callback validate P now dateCutoff"
  have x: "extractCalciumId u = Inl (Error (js ''bad id''))"
    using assms(4) by (simp add: extractCalciumId_def)
  from validate_unmatched_uid [OF assms(3,4)] obtain err where
    err: "validate obj = Inl err" "(js ''uid'', Thrown (Error (js ''bad id''))) \<in> set err"
    by blast
  have cb: "?f ?c i s = (None, s\<lparr>unparsed := unparsed s @ [Diagnostic i obj err]\<rparr>)" for s
    using assms(2) err(1) by (simp add: callback_def)
  have p: "parsed (ImportICS validate P now events dateCutoff) =
       parsed (ImportICS validate P now (take i events) dateCutoff)
         @ parsed (ImportICS validate P now (drop (Suc i) events) dateCutoff)"
    using parsed_split [OF assms(1), of validate P now dateCutoff st] by (simp add: cb)
  have m: "Diagnostic i obj err \<in> set (unparsed (final (ImportICS validate P now events dateCutoff)))"
  proof -
    obtain r1 s1 where a: "map_events ?f (take i events) 0 ?E = (r1, s1)"
      by (cases "map_events ?f (take i events) 0 ?E")
    let ?s = "s1\<lparr>unparsed := unparsed s1 @ [Diagnostic i obj err]\<rparr>"
    have "snd (map_events ?f events 0 ?E) = snd (map_events ?f (drop (Suc i) events) (Suc i) ?s)"
      using map_events_split [OF assms(1), of ?f 0 ?E] a cb [of s1]
      by (simp split: prod.splits)
    moreover have "Diagnostic i obj err \<in> set (unparsed ?s)" by simp
    ultimately show ?thesis
      using unparsed_mono [of ?s validate P now dateCutoff "drop (Suc i) events" "Suc i"]
      by (auto simp: final_ImportICS)
  qed
  have a: "\<exists>u'. uid_re u' = Some (importId e)"
    if "e \<in> set (parsed (ImportICS validate P now events dateCutoff))" for e
  proof -
    from parsed_provenance [OF that] obtain obj' d where
      h: "validate obj' = Inr d" "e = make_event d (resolved_dates now d)" by blast
    from validate_Inr_uid [OF h(1)] h(2) show ?thesis
      by (auto simp: make_event_def)
  qed
  from x err cb [of st] m p a show ?thesis by blast
qed

lemma wrong_domain_is_rejected:
  "(1::nat) < length [team_meeting, wrong_domain] \<and>
   extract_record (getAllProperties ([team_meeting, wrong_domain] ! 1)) [] = Inr wrong_domain_record \<and>
   obj_get wrong_domain_record (js ''uid'') = JStr (js ''1234567890-abc123-999999@example.org'') \<and>
   uid_re (js ''1234567890-abc123-999999@example.org'') = None \<and>
   extractCalciumId (js ''1234567890-abc123-999999@example.org'') = Inl (Error (js ''bad id'')) \<and>
   unparsed (final (ImportICS validate dayjs_iso sample_clock [team_meeting, wrong_domain] None)) =
     [Diagnostic 1 wrong_domain_record [(js ''uid'', Thrown (Error (js ''bad id'')))]] \<and>
   parsed (ImportICS validate dayjs_iso sample_clock [team_meeting, wrong_domain] None) =
     [team_meeting_event JNull (js ''2024-01-15'') (js ''2024-01-15'')]"
proof -
  have a: "(1::nat) < length [team_meeting, wrong_domain]" by simp
  have b: "extract_record (getAllProperties ([team_meeting, wrong_domain] ! 1)) [] = Inr wrong_domain_record"
    by code_simp
  have c: "obj_get wrong_domain_record (js ''uid'') = JStr (js ''1234567890-abc123-999999@example.org'')"
    by code_simp
  have d: "uid_re (js ''1234567890-abc123-999999@example.org'') = None" by code_simp
  have e: "unparsed (final (ImportICS validate dayjs_iso sample_clock [team_meeting, wrong_domain] None)) =
     [Diagnostic 1 wrong_domain_record [(js ''uid'', Thrown (Error (js ''bad id'')))]]"
    by code_simp
  have f: "parsed (ImportICS validate dayjs_iso sample_clock [team_meeting, wrong_domain] None) =
     [team_meeting_event JNull (js ''2024-01-15'') (js ''2024-01-15'')]"
    by code_simp
  from unmatched_uid_is_rejected [OF a b c d]
  have "extractCalciumId (js ''1234567890-abc123-999999@example.org'') = Inl (Error (js ''bad id''))"
    by blast
  with a b c d e f show ?thesis by simp
qed


text \<open>
  Claim C2, where the code departs from it. The uid
  \<open>1234567890-abc123-999999@afosterriXorg\<close> does not end in the fixed domain
  \<open>afosterri.org\<close>, so it does not have the form of an id of the feed. All the same
  \<open>extractCalciumId\<close> returns its token and does not throw, every rule of the shape parses
  its field of the record, and with a validator that returns the parsed data the run
  accepts the record under the import id \<open>abc123\<close> and puts nothing into \<open>unparsed\<close>.
\<close>

theorem wildcard_domain_is_accepted:
  "extract_record (getAllProperties wildcard_domain) [] = Inr wildcard_domain_record \<and>
   obj_get wildcard_domain_record (js ''uid'') =
     JStr (js ''1234567890-abc123-999999@afosterriXorg'') \<and>
   drop 25 (js ''1234567890-abc123-999999@afosterriXorg'') \<noteq> js ''afosterri.org'' \<and>
   extractCalciumId (js ''1234567890-abc123-999999@afosterriXorg'') = Inr (js ''abc123'') \<and>
   shape_uid (obj_get wildcard_domain_record (js ''uid'')) = ZOk (uid team_meeting_data) \<and>
   shape_summary (obj_get wildcard_domain_record (js ''summary'')) =
     ZOk (summary team_meeting_data) \<and>
   shape_dtstart (obj_get wildcard_domain_record (js ''dtstart'')) =
     ZOk (dtstart team_meeting_data) \<and>
   shape_dtend (obj_get wildcard_domain_record (js ''dtend'')) = ZOk (dtend team_meeting_data) \<and>
   shape_categories (obj_get wildcard_domain_record (js ''categories'')) =
     ZOk (categories team_meeting_data) \<and>
   shape_description (obj_get wildcard_domain_record (js ''description'')) =
     ZOk (description team_meeting_data) \<and>
   shape_rrule (obj_get wildcard_domain_record (js ''rrule'')) = ZOk (rrule team_meeting_data) \<and>
   (V wildcard_domain_record = Inr team_meeting_data \<longrightarrow>
      ImportICS V P now [wildcard_domain] None =
        \<lparr>parsed = [team_meeting_event JNull (js ''2024-01-15'') (js ''2024-01-15'')],
         final = \<lparr>broken = [], unparsed = []\<rparr>, rr = []\<rparr>)"
proof -
  have a: "extract_record (getAllProperties wildcard_domain) [] = Inr wildcard_domain_record"
    by code_simp
  have b: "obj_get wildcard_domain_record (js ''uid'') =
     JStr (js ''1234567890-abc123-999999@afosterriXorg'')"
    by code_simp
  have c: "drop 25 (js ''1234567890-abc123-999999@afosterriXorg'') \<noteq> js ''afosterri.org''"
    by (simp add: js_def)
  have d: "extractCalciumId (js ''1234567890-abc123-999999@afosterriXorg'') = Inr (js ''abc123'')"
    by code_simp
  have e: "shape_uid (obj_get wildcard_domain_record (js ''uid'')) = ZOk (uid team_meeting_data)"
    by code_simp
  have f: "shape_summary (obj_get wildcard_domain_record (js ''summary'')) =
     ZOk (summary team_meeting_data)"
    by code_simp
  have g: "shape_dtstart (obj_get wildcard_domain_record (js ''dtstart'')) =
     ZOk (dtstart team_meeting_data)"
    by code_simp
  have h: "shape_dtend (obj_get wildcard_domain_record (js ''dtend'')) =
     ZOk (dtend team_meeting_data)"
    by code_simp
  have i: "shape_categories (obj_get wildcard_domain_record (js ''categories'')) =
     ZOk (categories team_meeting_data)"
    by code_simp
  have j: "shape_description (obj_get wildcard_domain_record (js ''description'')) =
     ZOk (description team_meeting_data)"
    by code_simp
  have k: "shape_rrule (obj_get wildcard_domain_record (js ''rrule'')) =
     ZOk (rrule team_meeting_data)"
    by code_simp
  have r: "resolved_dates now team_meeting_data = (Dayjs 19737, Dayjs 19737)"
    by (simp add: resolved_dates_def initial_dates_def Let_def isBefore_def parseDate_def
        dayjs_object_face_value team_meeting_data_def) code_simp
  have ev: "make_event team_meeting_data (Dayjs 19737, Dayjs 19737) =
      team_meeting_event JNull (js ''2024-01-15'') (js ''2024-01-15'')"
    by code_simp
  have ne: "length (js ''2024-01-15'') \<noteq> 0" by (simp add: js_def)
  have run: "ImportICS V P now [wildcard_domain] None =
        \<lparr>parsed = [team_meeting_event JNull (js ''2024-01-15'') (js ''2024-01-15'')],
         final = \<lparr>broken = [], unparsed = []\<rparr>, rr = []\<rparr>"
    if "V wildcard_domain_record = Inr team_meeting_data"
    using that a r ev ne
    by (simp add: ImportICS_def callback_def cut_off_def Let_def team_meeting_event_def)
  from a b c d e f g h i j k run show ?thesis by blast
qed

theorem wildcard_domain_is_accepted_witness:
  "validate wildcard_domain_record = Inr team_meeting_data \<and>
   parsed (ImportICS validate dayjs_iso sample_clock [wildcard_domain] None) =
     [team_meeting_event JNull (js ''2024-01-15'') (js ''2024-01-15'')] \<and>
   unparsed (final (ImportICS validate dayjs_iso sample_clock [wildcard_domain] None)) = []"
proof -
  have v: "validate wildcard_domain_record = Inr team_meeting_data" by code_simp
  with wildcard_domain_is_accepted [of validate dayjs_iso sample_clock] show ?thesis by simp
qed

section \<open>The scenario\<close>

text \<open>
  The run on the component of the scenario does not give a record whose cabin is
  \<open>undefined\<close>.
\<close>

theorem scenario_counterexample:
  "parsed (ImportICS validate dayjs_iso sample_clock [team_meeting] None) \<noteq>
     [team_meeting_event JUndefined (js ''2024-01-15'') (js ''2024-01-15'')]"
  by code_simp

text \<open>
  Claim C3, as amended. The component of the scenario extracts to its flat record; each
  rule of the shape parses its field of that record to the field of the scenario's data;
  and with a validator that returns this data the run accepts exactly one record, with
  import id \<open>abc123\<close>, title \<open>Team Meeting\<close>, no description, the cabin \<open>null\<close> and both
  dates \<open>2024-01-15\<close>, and leaves the buckets and \<open>rr\<close> empty.
\<close>

theorem scenario_team_meeting:
  "extract_record (getAllProperties team_meeting) [] = Inr team_meeting_record \<and>
   shape_uid (obj_get team_meeting_record (js ''uid'')) = ZOk (uid team_meeting_data) \<and>
   shape_summary (obj_get team_meeting_record (js ''summary'')) = ZOk (summary team_meeting_data) \<and>
   shape_dtstart (obj_get team_meeting_record (js ''dtstart'')) = ZOk (dtstart team_meeting_data) \<and>
   shape_dtend (obj_get team_meeting_record (js ''dtend'')) = ZOk (dtend team_meeting_data) \<and>
   shape_categories (obj_get team_meeting_record (js ''categories'')) = ZOk (categories team_meeting_data) \<and>
   shape_description (obj_get team_meeting_record (js ''description'')) = ZOk (description team_meeting_data) \<and>
   shape_rrule (obj_get team_meeting_record (js ''rrule'')) = ZOk (rrule team_meeting_data) \<and>
   (V team_meeting_record = Inr team_meeting_data \<longrightarrow>
      ImportICS V P now [team_meeting] None =
        \<lparr>parsed = [team_meeting_event JNull (js ''2024-01-15'') (js ''2024-01-15'')],
         final = \<lparr>broken = [], unparsed = []\<rparr>, rr = []\<rparr>)"
proof -
  have a: "extract_record (getAllProperties team_meeting) [] = Inr team_meeting_record"
    by code_simp
  have b: "shape_uid (obj_get team_meeting_record (js ''uid'')) = ZOk (uid team_meeting_data)"
    by code_simp
  have c: "shape_summary (obj_get team_meeting_record (js ''summary'')) = ZOk (summary team_meeting_data)"
    by code_simp
  have d: "shape_dtstart (obj_get team_meeting_record (js ''dtstart'')) = ZOk (dtstart team_meeting_data)"
    by code_simp
  have e: "shape_dtend (obj_get team_meeting_record (js ''dtend'')) = ZOk (dtend team_meeting_data)"
    by code_simp
  have f: "shape_categories (obj_get team_meeting_record (js ''categories'')) = ZOk (categories team_meeting_data)"
    by code_simp
  have g: "shape_description (obj_get team_meeting_record (js ''description'')) = ZOk (description team_meeting_data)"
    by code_simp
  have h: "shape_rrule (obj_get team_meeting_record (js ''rrule'')) = ZOk (rrule team_meeting_data)"
    by code_simp
  have r: "resolved_dates now team_meeting_data = (Dayjs 19737, Dayjs 19737)"
    by code_simp
  have ev: "make_event team_meeting_data (Dayjs 19737, Dayjs 19737) =
      team_meeting_event JNull (js ''2024-01-15'') (js ''2024-01-15'')"
    by code_simp
  have ne: "length (js ''2024-01-15'') \<noteq> 0" by (simp add: js_def)
  have i: "ImportICS V P now [team_meeting] None =
        \<lparr>parsed = [team_meeting_event JNull (js ''2024-01-15'') (js ''2024-01-15'')],
         final = \<lparr>broken = [], unparsed = []\<rparr>, rr = []\<rparr>"
    if "V team_meeting_record = Inr team_meeting_data"
    using that a r ev ne
    by (simp add: ImportICS_def callback_def cut_off_def Let_def team_meeting_event_def)
  from a b c d e f g h i show ?thesis by blast
qed

theorem scenario_team_meeting_witness:
  "validate team_meeting_record = Inr team_meeting_data \<and>
   parsed (ImportICS validate dayjs_iso sample_clock [team_meeting] None) =
     [team_meeting_event JNull (js ''2024-01-15'') (js ''2024-01-15'')]"
proof -
  have v: "validate team_meeting_record = Inr team_meeting_data" by code_simp
  with scenario_team_meeting [of validate dayjs_iso sample_clock] show ?thesis by simp
qed


end
